theory Spec2Isabelle
  imports Complex_Main "HOL-Library.AList"
begin

section \<open>JavaScript numbers\<close>

text \<open>
  A JavaScript number is a double or \<open>NaN\<close>; a double is modelled as the rational
  it stands for. The infinities do not occur in the functions below.
\<close>

datatype number = NaN | Num rat

fun isNaN :: "number option \<Rightarrow> bool" where
  "isNaN None = True"
| "isNaN (Some NaN) = True"
| "isNaN (Some (Num _)) = False"

text \<open>\<open>Math.max\<close> of two numbers: \<open>NaN\<close> as soon as one argument is.\<close>

fun Math_max :: "number \<Rightarrow> number \<Rightarrow> number" where
  "Math_max (Num a) (Num b) = Num (max a b)"
| "Math_max _ _ = NaN"

text \<open>
  \<open>Math.floor\<close> and \<open>Math.round\<close> (halves go up). Both return the integer
  itself, without rounding: of a double it is a double again.
\<close>

definition Math_floor :: "rat \<Rightarrow> rat" where
  "Math_floor x = of_int \<lfloor>x\<rfloor>"

definition Math_round :: "rat \<Rightarrow> rat" where
  "Math_round x = of_int \<lfloor>x + 1 / 2\<rfloor>"

subsection \<open>Double precision\<close>

text \<open>
  The numbers of the program are IEEE 754 doubles: every arithmetic operation returns the
  exact result rounded to the nearest number with a 53 bit significand, ties going to the
  even significand. \<open>double\<close> is that rounding on the rationals, within the range of
  the normal doubles (no overflow, no subnormal numbers).
\<close>

function bit_length :: "int \<Rightarrow> int" where
  "bit_length n = (if n \<le> 0 then 0 else 1 + bit_length (n div 2))"
  by pat_completeness auto
termination
  by (relation "measure nat") auto

declare bit_length.simps [simp del]

definition pow2 :: "int \<Rightarrow> rat" where
  "pow2 k = (if 0 \<le> k then 2 ^ nat k else 1 / 2 ^ nat (- k))"

text \<open>For \<open>a > 0\<close>, the \<open>e\<close> with \<open>2^e \<le> a < 2^(e + 1)\<close>.\<close>

definition binary_exponent :: "rat \<Rightarrow> int" where
  "binary_exponent a =
     (let (n, d) = quotient_of a;
          k = bit_length n - bit_length d
      in if pow2 k \<le> a then k else k - 1)"

definition round_half_even :: "rat \<Rightarrow> int" where
  "round_half_even q =
     (let m = \<lfloor>q\<rfloor>; r = q - of_int m
      in if r < 1 / 2 then m else if 1 / 2 < r then m + 1 else if even m then m else m + 1)"

definition double :: "rat \<Rightarrow> rat" where
  "double x =
     (if x = 0 then 0
      else let ulp = pow2 (binary_exponent \<bar>x\<bar> - 52)
           in of_int (round_half_even (x / ulp)) * ulp)"

subsection \<open>\<open>parseInt\<close>\<close>

text \<open>
  \<open>parseInt(x)\<close> reads the text of \<open>x\<close>. A number is written in plain
  decimal notation when it is 0 or its magnitude is at least \<open>10^-6\<close> and below
  \<open>10^21\<close>; \<open>parseInt\<close> then drops the fraction (towards zero). Any other
  number is written with an exponent (\<open>5e-7\<close>, \<open>1e+21\<close>), of which
  \<open>parseInt\<close> reads the digits in front; that depends on the digits chosen for the
  text and is not modelled: \<open>None\<close>. Of \<open>NaN\<close> the result is \<open>NaN\<close>.
\<close>

definition plain_notation :: "rat \<Rightarrow> bool" where
  "plain_notation x = (x = 0 \<or> (1 / 10 ^ 6 \<le> \<bar>x\<bar> \<and> \<bar>x\<bar> < 10 ^ 21))"

fun parseInt :: "number \<Rightarrow> number option" where
  "parseInt NaN = Some NaN"
| "parseInt (Num x) =
     (if plain_notation x then Some (Num (if 0 \<le> x then of_int \<lfloor>x\<rfloor> else of_int \<lceil>x\<rceil>))
      else None)"

section \<open>Region state validation\<close>

text \<open>
  The region part of the state object. A property that is \<open>undefined\<close> is
  \<open>None\<close>. \<open>start\<close> and \<open>end\<close> are only ever passed to
  \<open>parseInt\<close>: a text in their place stands as the integer it starts with, and any
  value that \<open>parseInt\<close> turns into \<open>NaN\<close> as \<open>Some NaN\<close>.
\<close>

record region_state =
  chr :: "string option"
  start :: "number option"
  end' :: "number option"

record plot_layout =
  min_region_scale :: "number option"
  max_region_scale :: "number option"

text \<open>
  The local variables of \<open>LocusZoom.validateState\<close> after the region block:
  the two bounds, the attempted midpoint and the attempted scale. The block runs on
  bounds already raised to at least 1, so \<open>start || end\<close> is the start whenever
  the start is a number. Every sum, difference and quotient is rounded to a double.
\<close>

record region_vars =
  v_start :: rat
  v_end :: rat
  attempted_midpoint :: rat
  attempted_scale :: rat

fun resolve_region :: "number \<Rightarrow> number \<Rightarrow> region_vars" where
  "resolve_region NaN NaN =
     \<lparr>v_start = 1, v_end = 1, attempted_midpoint = 1 / 2, attempted_scale = 0\<rparr>"
| "resolve_region NaN (Num e) =
     \<lparr>v_start = e, v_end = e, attempted_midpoint = e, attempted_scale = 0\<rparr>"
| "resolve_region (Num s) NaN =
     \<lparr>v_start = s, v_end = s, attempted_midpoint = s, attempted_scale = 0\<rparr>"
| "resolve_region (Num s) (Num e) =
     (let mid = Math_round (double (double (s + e) / 2));
          v = \<lparr>v_start = s, v_end = e, attempted_midpoint = mid,
               attempted_scale = double (e - s)\<rparr>;
          v = (if attempted_scale v < 0
               then (let temp = v_start v;
                         v = v\<lparr>v_end := v_start v\<rparr>;
                         v = v\<lparr>v_start := temp\<rparr>
                     in v\<lparr>attempted_scale := double (v_end v - v_start v)\<rparr>)
               else v)
      in if attempted_midpoint v < 0
         then v\<lparr>v_start := 1, v_end := 1, attempted_scale := 0\<rparr>
         else v)"

text \<open>
  One of the two layout constraints: the new bounds when the constraint applies, the
  arithmetic again in double precision.
\<close>

definition constrain_scale :: "rat \<Rightarrow> rat \<Rightarrow> rat \<times> rat" where
  "constrain_scale mid scale =
     (let s = max (double (mid - Math_floor (double (scale / 2)))) 1 in (s, double (s + scale)))"

text \<open>
  \<open>LocusZoom.validateState\<close>. \<open>None\<close>: a bound whose text has an
  exponent, see \<open>parseInt\<close>.
\<close>

definition validateState :: "region_state \<Rightarrow> plot_layout \<Rightarrow> region_state option" where
  "validateState new_state layout =
     (case (chr new_state, start new_state, end' new_state) of
        (Some c, Some s0, Some e0) \<Rightarrow>
          (case (parseInt s0, parseInt e0) of
             (Some ps, Some pe) \<Rightarrow>
               (let v = resolve_region (Math_max ps (Num 1)) (Math_max pe (Num 1));
                    (s, e) = (v_start v, v_end v);
                    (s, e) = (case min_region_scale layout of
                                Some (Num m) \<Rightarrow>
                                  if attempted_scale v < m
                                  then constrain_scale (attempted_midpoint v) m else (s, e)
                              | _ \<Rightarrow> (s, e));
                    (s, e) = (case max_region_scale layout of
                                Some (Num m) \<Rightarrow>
                                  if attempted_scale v > m
                                  then constrain_scale (attempted_midpoint v) m else (s, e)
                              | _ \<Rightarrow> (s, e))
                in Some (new_state\<lparr>start := Some (Num s), end' := Some (Num e)\<rparr>))
           | _ \<Rightarrow> None)
      | _ \<Rightarrow> Some new_state)"


section \<open>Errors\<close>

text \<open>
  What a \<open>throw\<close> or a rejected promise carries: the thrown string, or a
  \<open>TypeError\<close> raised by the language itself.
\<close>

datatype error = Throw string | TypeError

section \<open>JavaScript values and objects\<close>

text \<open>
  The values that rows, headers and responses hold. \<open>JOpaque\<close> stands for any
  object or function whose content plays no role, such as the members every object
  inherits from \<open>Object.prototype\<close>.
\<close>

datatype jsval = JUndefined | JNull | JBool bool | JNum number | JStr string | JOpaque

text \<open>
  An object is the list of its own properties in the order of their creation. Assigning to
  a property that exists keeps its place; a new property goes to the end.
\<close>

type_synonym 'v object = "(string \<times> 'v) list"

definition set_property :: "'v object \<Rightarrow> string \<Rightarrow> 'v \<Rightarrow> 'v object" where
  "set_property obj k v = AList.update k v obj"

text \<open>The names every plain object inherits.\<close>

definition Object_prototype_names :: "string list" where
  "Object_prototype_names =
     [''constructor'', ''__defineGetter__'', ''__defineSetter__'', ''hasOwnProperty'',
      ''__lookupGetter__'', ''__lookupSetter__'', ''isPrototypeOf'', ''propertyIsEnumerable'',
      ''toString'', ''valueOf'', ''__proto__'', ''toLocaleString'']"

text \<open>\<open>k in obj\<close>: own or inherited.\<close>

definition has_property :: "string \<Rightarrow> 'v object \<Rightarrow> bool" where
  "has_property k obj = (map_of obj k \<noteq> None \<or> k \<in> set Object_prototype_names)"

text \<open>\<open>obj[k]\<close> on an object of values.\<close>

definition get_property :: "jsval object \<Rightarrow> string \<Rightarrow> jsval" where
  "get_property obj k =
     (case map_of obj k of
        Some v \<Rightarrow> v
      | None \<Rightarrow> if k \<in> set Object_prototype_names then JOpaque else JUndefined)"

text \<open>
  A property name that is an array index: the decimal numeral, without sign or leading
  zero, of a number below \<open>2^32 - 1\<close>.
\<close>

definition digit_value :: "char \<Rightarrow> nat" where
  "digit_value c = of_char c - 48"

definition is_digit :: "char \<Rightarrow> bool" where
  "is_digit c = (48 \<le> (of_char c :: nat) \<and> (of_char c :: nat) \<le> 57)"

definition decimal_value :: "string \<Rightarrow> nat" where
  "decimal_value s = foldl (\<lambda>n c. 10 * n + digit_value c) 0 s"

definition array_index :: "string \<Rightarrow> nat option" where
  "array_index s =
     (if s \<noteq> [] \<and> list_all is_digit s \<and> (s = ''0'' \<or> hd s \<noteq> CHR ''0'')
         \<and> length s \<le> 10 \<and> decimal_value s < 4294967295
      then Some (decimal_value s) else None)"

text \<open>
  \<open>Object.keys\<close>: the own property names that are array indices, in ascending
  numeric order, followed by the other names in the order of their creation.
\<close>

definition Object_keys :: "'v object \<Rightarrow> string list" where
  "Object_keys obj =
     (let ks = map fst obj
      in map snd (sort_key fst (List.map_filter
                                  (\<lambda>k. map_option (\<lambda>n. (n, k)) (array_index k)) ks))
         @ filter (\<lambda>k. array_index k = None) ks)"

section \<open>Data sources: the single-slot cache\<close>

text \<open>
  The cache fields of a \<open>LocusZoom.Data.Source\<close>; \<open>None\<close> is
  \<open>undefined\<close>, the value of both fields until the first response is stored.
  Cache keys are strings (URLs), so \<open>==\<close> on two defined keys is equality.
\<close>

record ('k, 'r) source =
  enableCache :: bool
  cachedKey :: "'k option"
  cachedResponse :: "'r option"

text \<open>
  \<open>getRequest\<close>. A request \<open>q\<close> stands for the arguments
  \<open>(state, chain, fields)\<close>; \<open>getCacheKey\<close> and \<open>fetchRequest\<close> are the
  source's methods, the second giving the fetched response or the reason of the rejection.
  The network traffic is the list of requests fetched so far. A promise is settled before
  the next call starts, so the assignment in the \<open>then\<close> callback is part of the
  call. The promise resolves to a response, or to \<open>undefined\<close> when the cache
  slot it is read from holds none.
\<close>

definition getRequest ::
  "('q \<Rightarrow> 'k option) \<Rightarrow> ('q \<Rightarrow> error + 'r) \<Rightarrow> 'q \<Rightarrow> ('k, 'r) source \<times> 'q list
     \<Rightarrow> (error + 'r option) \<times> ('k, 'r) source \<times> 'q list" where
  "getRequest getCacheKey fetchRequest q w =
     (let (this, io) = w;
          cacheKey = getCacheKey q
      in if enableCache this \<and> cacheKey \<noteq> None \<and> cacheKey = cachedKey this
         then (Inr (cachedResponse this), this, io)
         else (case fetchRequest q of
                 Inl e \<Rightarrow> (Inl e, this, io @ [q])
               | Inr x \<Rightarrow>
                   if enableCache this
                   then (Inr (Some x), this\<lparr>cachedKey := cacheKey, cachedResponse := Some x\<rparr>,
                         io @ [q])
                   else (Inr (Some x), this, io @ [q])))"

text \<open>
  \<open>getData\<close>, the function it returns applied to a chain: the request, then
  \<open>parseResponse\<close> on its response.
\<close>

definition getData ::
  "('q \<Rightarrow> 'k option) \<Rightarrow> ('q \<Rightarrow> error + 'r) \<Rightarrow> ('r option \<Rightarrow> 'q \<Rightarrow> error + 'c) \<Rightarrow> 'q
     \<Rightarrow> ('k, 'r) source \<times> 'q list \<Rightarrow> (error + 'c) \<times> ('k, 'r) source \<times> 'q list" where
  "getData getCacheKey fetchRequest parseResponse q w =
     (case getRequest getCacheKey fetchRequest q w of
        (Inl e, w') \<Rightarrow> (Inl e, w')
      | (Inr resp, w') \<Rightarrow> (parseResponse resp q, w'))"

section \<open>Data layers: axis extent\<close>

text \<open>Arithmetic on numbers: \<open>NaN\<close> as soon as an operand is.\<close>

fun num_add :: "number \<Rightarrow> number \<Rightarrow> number" where
  "num_add (Num a) (Num b) = Num (a + b)"
| "num_add _ _ = NaN"

fun num_sub :: "number \<Rightarrow> number \<Rightarrow> number" where
  "num_sub (Num a) (Num b) = Num (a - b)"
| "num_sub _ _ = NaN"

fun num_mul :: "number \<Rightarrow> number \<Rightarrow> number" where
  "num_mul (Num a) (Num b) = Num (a * b)"
| "num_mul _ _ = NaN"

text \<open>The number an optional value converts to: \<open>undefined\<close> gives \<open>NaN\<close>.\<close>

fun to_number :: "number option \<Rightarrow> number" where
  "to_number None = NaN"
| "to_number (Some n) = n"

text \<open>
  \<open>d3.extent\<close> of the library d3 (version 3), which the repository uses and does
  not contain: the first loop looks for the first element that is a number, the second
  lowers the minimum and raises the maximum over the rest, skipping what is not a number;
  both ends are \<open>undefined\<close> when no element is a number.
\<close>

fun d3_extent_rest :: "rat \<Rightarrow> rat \<Rightarrow> number option list \<Rightarrow> rat \<times> rat" where
  "d3_extent_rest a c [] = (a, c)"
| "d3_extent_rest a c (Some (Num b) # xs) =
     d3_extent_rest (if a > b then b else a) (if c < b then b else c) xs"
| "d3_extent_rest a c (_ # xs) = d3_extent_rest a c xs"

fun d3_extent :: "number option list \<Rightarrow> number option \<times> number option" where
  "d3_extent [] = (None, None)"
| "d3_extent (Some (Num b) # xs) =
     (let (a, c) = d3_extent_rest b b xs in (Some (Num a), Some (Num c)))"
| "d3_extent (_ # xs) = d3_extent xs"

text \<open>
  The layout of one axis of a data layer (\<open>layout.x_axis\<close>, \<open>layout.y_axis\<close>);
  \<open>None\<close> is a directive that is absent. \<open>axis\<close> is the number of the panel
  axis the layer is bound to, which the data layer's constructor sets to 1 when the layout
  gives no number.
\<close>

record axis_layout =
  field :: "string option"
  axis :: nat
  floor' :: "number option"
  ceiling' :: "number option"
  lower_buffer :: "number option"
  upper_buffer :: "number option"
  min_extent :: "(number option \<times> number option) option"
  ticks :: "rat list option"

record 'row data_layer =
  x_axis :: axis_layout
  y_axis :: axis_layout
  data :: "'row list"
  state :: region_state

text \<open>
  The extent before floor and ceiling are applied (``a new base extent''): the range of
  the field over the data, with the buffered ends and the minimum extent pushed onto it.
  \<open>num_of d f\<close> is \<open>+d[f]\<close>, the field \<open>f\<close> of the datum \<open>d\<close> as a number.
\<close>

definition base_extent ::
  "('row \<Rightarrow> string \<Rightarrow> number) \<Rightarrow> axis_layout \<Rightarrow> string \<Rightarrow> 'row list
     \<Rightarrow> number option \<times> number option" where
  "base_extent num_of lay f ds =
     (let (e0, e1) = d3_extent (map (\<lambda>d. Some (num_of d f)) ds);
          original_extent_span = num_sub (to_number e1) (to_number e0);
          extent = [e0, e1];
          extent = (if \<not> isNaN (lower_buffer lay)
                    then extent @ [Some (num_sub (to_number e0)
                             (num_mul original_extent_span (to_number (lower_buffer lay))))]
                    else extent);
          extent = (if \<not> isNaN (upper_buffer lay)
                    then extent @ [Some (num_add (to_number e1)
                             (num_mul original_extent_span (to_number (upper_buffer lay))))]
                    else extent);
          extent = (case min_extent lay of
                      Some (m0, m1) \<Rightarrow>
                        if \<not> isNaN m0 \<and> \<not> isNaN m1 then extent @ [m0, m1] else extent
                    | None \<Rightarrow> extent)
      in d3_extent extent)"

text \<open>The last resort of \<open>getAxisExtent\<close>: the region of the state, for the x axis.\<close>

definition state_extent :: "'row data_layer \<Rightarrow> string \<Rightarrow> number option list" where
  "state_extent this dimension =
     (if dimension = ''x'' \<and> \<not> isNaN (start (state this)) \<and> \<not> isNaN (end' (state this))
      then [start (state this), end' (state this)]
      else [])"

definition getAxisExtent ::
  "('row \<Rightarrow> string \<Rightarrow> number) \<Rightarrow> 'row data_layer \<Rightarrow> string \<Rightarrow> error + number option list" where
  "getAxisExtent num_of this dimension =
     (if dimension \<noteq> ''x'' \<and> dimension \<noteq> ''y''
      then Inl (Throw ''Invalid dimension identifier passed to LocusZoom.DataLayer.getAxisExtent()'')
      else
        let lay = (if dimension = ''x'' then x_axis this else y_axis this)
        in if \<not> isNaN (floor' lay) \<and> \<not> isNaN (ceiling' lay)
           then Inr [Some (to_number (floor' lay)), Some (to_number (ceiling' lay))]
           else (case field lay of
                   Some f \<Rightarrow>
                     if f \<noteq> [] \<and> data this \<noteq> []
                     then (let (e0, e1) = base_extent num_of lay f (data this);
                               e0 = (if \<not> isNaN (floor' lay) then floor' lay else e0);
                               e1 = (if \<not> isNaN (ceiling' lay) then ceiling' lay else e1)
                           in Inr [e0, e1])
                     else Inr (state_extent this dimension)
                 | None \<Rightarrow> Inr (state_extent this dimension)))"

section \<open>Panels: dragging\<close>

text \<open>An element of an array, \<open>undefined\<close> past its end.\<close>

fun element :: "'a option list \<Rightarrow> nat \<Rightarrow> 'a option" where
  "element [] i = None"
| "element (x # xs) 0 = x"
| "element (x # xs) (Suc i) = element xs i"

text \<open>
  \<open>interactions.dragging\<close> while a drag is in progress; \<open>drag_method\<close>
  (the property \<open>method\<close>) is the
  argument \<open>toggleDragging\<close> was started with, \<open>None\<close> when it was started with
  none.
\<close>

record dragging =
  drag_method :: "string option"
  panel_id :: string
  start_x :: rat
  start_y :: rat
  dragged_x :: rat
  dragged_y :: rat
  on_x :: bool
  on_y1 :: bool
  on_y2 :: bool

text \<open>
  The part of a panel that \<open>toggleDragging\<close> reads and writes.
  \<open>interactions_dragging\<close> is \<open>None\<close> for \<open>false\<close>; \<open>applied_states\<close>
  collects the arguments of the calls of \<open>parent.applyState\<close>, whose work is
  asynchronous; \<open>cursor\<close> is the cursor style of the panel's container.
\<close>

record 'row panel =
  id' :: string
  data_layer_ids_by_z_index :: "string list"
  data_layers :: "string \<rightharpoonup> 'row data_layer"
  interactions_dragging :: "dragging option"
  interactions_zooming :: bool
  parent_loading_data :: bool
  x_extent :: "number option list"
  y1_extent :: "number option list"
  y2_extent :: "number option list"
  applied_states :: "(number option \<times> number option) list"
  cursor :: "string option"

definition canInteract :: "'row panel \<Rightarrow> bool" where
  "canInteract this =
     (\<not> (interactions_dragging this \<noteq> None \<or> interactions_zooming this
          \<or> parent_loading_data this))"

text \<open>
  The body of the \<open>forEach\<close> in \<open>overrideAxisLayout\<close> for one data layer;
  \<open>ax\<close> is \<open>''x''\<close> or \<open>''y''\<close>, selecting \<open>layout.x_axis\<close> or
  \<open>layout.y_axis\<close>.
\<close>

definition override_layer ::
  "string \<Rightarrow> nat \<Rightarrow> number option list \<Rightarrow> 'row data_layer \<Rightarrow> 'row data_layer" where
  "override_layer ax axis_number extent layer =
     (let lay = (if ax = ''x'' then x_axis layer else y_axis layer)
      in if axis lay = axis_number
         then (let lay = lay\<lparr>floor' := element extent 0, ceiling' := element extent 1,
                             lower_buffer := None, upper_buffer := None,
                             min_extent := None, ticks := None\<rparr>
               in if ax = ''x'' then layer\<lparr>x_axis := lay\<rparr> else layer\<lparr>y_axis := lay\<rparr>)
         else layer)"

text \<open>
  \<open>overrideAxisLayout\<close>: the data layers are visited in z order; an identifier with
  no data layer behind it raises a \<open>TypeError\<close>.
\<close>

fun overrideAxisLayout ::
  "string \<Rightarrow> nat \<Rightarrow> number option list \<Rightarrow> string list \<Rightarrow> (string \<rightharpoonup> 'row data_layer)
     \<Rightarrow> error + (string \<rightharpoonup> 'row data_layer)" where
  "overrideAxisLayout ax axis_number extent [] layers = Inr layers"
| "overrideAxisLayout ax axis_number extent (i # ids) layers =
     (case layers i of
        None \<Rightarrow> Inl TypeError
      | Some layer \<Rightarrow>
          overrideAxisLayout ax axis_number extent ids
            (layers(i \<mapsto> override_layer ax axis_number extent layer)))"

text \<open>
  \<open>toggleDragging\<close>. \<open>coords\<close> is the pointer position that \<open>d3.mouse\<close>
  gives when a drag starts. \<open>method || null\<close> stores no method for the empty
  text as for none.
\<close>

definition stop_dragging :: "dragging \<Rightarrow> 'row panel \<Rightarrow> error + 'row panel" where
  "stop_dragging d this =
     (let done = (\<lambda>p. p\<lparr>interactions_dragging := None, cursor := None\<rparr>)
      in if drag_method d = Some ''background'' \<or> drag_method d = Some ''x_tick''
         then (if dragged_x d \<noteq> 0
               then (case overrideAxisLayout ''x'' 1 (x_extent this)
                            (data_layer_ids_by_z_index this) (data_layers this) of
                       Inl e \<Rightarrow> Inl e
                     | Inr layers \<Rightarrow>
                         Inr (done (this\<lparr>data_layers := layers,
                                applied_states := applied_states this
                                  @ [(element (x_extent this) 0, element (x_extent this) 1)]\<rparr>)))
               else Inr (done this))
         else if drag_method d = Some ''y1_tick'' \<or> drag_method d = Some ''y2_tick''
         then (if dragged_y d \<noteq> 0
               then (let y_axis_number = (if drag_method d = Some ''y1_tick'' then 1 else 2)
                     in case overrideAxisLayout ''y'' y_axis_number
                               (if drag_method d = Some ''y1_tick'' then y1_extent this
                                else y2_extent this)
                               (data_layer_ids_by_z_index this) (data_layers this) of
                          Inl e \<Rightarrow> Inl e
                        | Inr layers \<Rightarrow> Inr (done (this\<lparr>data_layers := layers\<rparr>)))
               else Inr (done this))
         else Inr (done this))"

definition toggleDragging ::
  "string option \<Rightarrow> rat \<times> rat \<Rightarrow> 'row panel \<Rightarrow> error + 'row panel" where
  "toggleDragging m coords this =
     (case interactions_dragging this of
        Some d \<Rightarrow> stop_dragging d this
      | None \<Rightarrow>
          if canInteract this
          then Inr (this\<lparr>interactions_dragging :=
                      Some \<lparr>drag_method = (if m = Some [] then None else m),
                            panel_id = id' this,
                            start_x = fst coords, start_y = snd coords,
                            dragged_x = 0, dragged_y = 0,
                            on_x = (m = Some ''background'' \<or> m = Some ''x_tick''),
                            on_y1 = (m = Some ''y1_tick''),
                            on_y2 = (m = Some ''y2_tick'')\<rparr>,
                    cursor := Some ''all-scroll''\<rparr>)
          else Inr this)"

text \<open>
  A panel in the middle of a drag of its first y axis, with one data layer on each y axis.
\<close>

definition example_axis :: "nat \<Rightarrow> axis_layout" where
  "example_axis n =
     \<lparr>field = Some ''v'', axis = n, floor' = Some (Num 0), ceiling' = None,
      lower_buffer = None, upper_buffer = Some (Num (1 / 10)),
      min_extent = Some (Some (Num 0), Some (Num 10)), ticks = Some [0, 5, 10]\<rparr>"

definition example_layer :: "nat \<Rightarrow> rat data_layer" where
  "example_layer n =
     \<lparr>x_axis = example_axis 1, y_axis = example_axis n, data = [],
      state = \<lparr>chr = Some ''10'', start = Some (Num 100), end' = Some (Num 200)\<rparr>\<rparr>"

definition example_panel :: "rat panel" where
  "example_panel =
     \<lparr>id' = ''p'', data_layer_ids_by_z_index = [''a'', ''b''],
      data_layers = [''a'' \<mapsto> example_layer 1, ''b'' \<mapsto> example_layer 2],
      interactions_dragging =
        Some \<lparr>drag_method = Some ''y1_tick'', panel_id = ''p'', start_x = 40, start_y = 60,
              dragged_x = 0, dragged_y = 5, on_x = False, on_y1 = True, on_y2 = False\<rparr>,
      interactions_zooming = False, parent_loading_data = False,
      x_extent = [Some (Num 100), Some (Num 200)],
      y1_extent = [Some (Num 2), Some (Num 12)],
      y2_extent = [Some (Num 0), Some (Num 1)],
      applied_states = [], cursor = Some ''all-scroll''\<rparr>"

section \<open>Data sources: parsing a response\<close>

text \<open>The chain threaded through the sources; the body \<open>{}\<close> it starts with is \<open>[]\<close>.\<close>

record chain =
  header :: "jsval object"
  body :: "jsval object list"

text \<open>\<open>xs[i]\<close> on an array: \<open>None\<close> (\<open>undefined\<close>) past the end.\<close>

definition nth_opt :: "'a list \<Rightarrow> nat \<Rightarrow> 'a option" where
  "nth_opt xs i = (if i < length xs then Some (xs ! i) else None)"

text \<open>An array element used as text or as a property name: \<open>undefined\<close> reads ``undefined''.\<close>

definition str_at :: "string list \<Rightarrow> nat \<Rightarrow> string" where
  "str_at xs i = (case nth_opt xs i of Some s \<Rightarrow> s | None \<Rightarrow> ''undefined'')"

definition not_found :: "string \<Rightarrow> string \<Rightarrow> error" where
  "not_found f outname = Throw (''field '' @ f @ '' not found in response for '' @ outname)"

text \<open>
  A transformation takes a value to a value or throws; the array \<open>trans\<close> holds
  \<open>null\<close> (\<open>None\<close>) where a field has none.
  \<open>if (trans && trans[j]) { val = trans[j](val); }\<close>
\<close>

type_synonym transformation = "jsval \<Rightarrow> error + jsval"

definition apply_trans :: "transformation option list \<Rightarrow> nat \<Rightarrow> jsval \<Rightarrow> error + jsval" where
  "apply_trans trans' j val =
     (case nth_opt trans' j of Some (Some t) \<Rightarrow> t val | _ \<Rightarrow> Inr val)"

text \<open>
  The registered transformation \<open>scinotation\<close>. On a number it returns text, produced
  by \<open>toFixed\<close> or \<open>toExponential\<close>; that text is the parameter \<open>format\<close>.
  On \<open>NaN\<close> it returns ``NaN''. On anything that is not a number, both logarithm tests
  fail or lead to \<open>x.toFixed\<close> and \<open>x.toExponential\<close>, which such a value does not
  have: a \<open>TypeError\<close>.
\<close>

definition scinotation :: "(rat \<Rightarrow> string) \<Rightarrow> transformation" where
  "scinotation format x =
     (case x of
        JNum (Num r) \<Rightarrow> Inr (JStr (format r))
      | JNum NaN \<Rightarrow> Inr (JStr ''NaN'')
      | _ \<Rightarrow> Inl TypeError)"

text \<open>The first error of a sequence of computations, or all their results.\<close>

fun sequence :: "(error + 'a) list \<Rightarrow> error + 'a list" where
  "sequence [] = Inr []"
| "sequence (Inl e # _) = Inl e"
| "sequence (Inr x # rs) = (case sequence rs of Inl e \<Rightarrow> Inl e | Inr xs \<Rightarrow> Inr (x # xs))"

subsection \<open>An object of arrays\<close>

text \<open>
  \<open>fields.forEach(function(f, i) { if (!(f in x)) {throw ...} })\<close>, from index
  \<open>i\<close> on.
\<close>

fun check_fields :: "jsval list object \<Rightarrow> string list \<Rightarrow> nat \<Rightarrow> string list \<Rightarrow> error option" where
  "check_fields x outnames i [] = None"
| "check_fields x outnames i (f # fs) =
     (if \<not> has_property f x then Some (not_found f (str_at outnames i))
      else check_fields x outnames (Suc i) fs)"

text \<open>
  \<open>x[Object.keys(x)[1]].length\<close>: the length of the array under the second key; with
  fewer than two keys the name looked up is ``undefined''. What is not there has no
  length.
\<close>

definition column_length :: "jsval list object \<Rightarrow> error + nat" where
  "column_length x =
     (let k = (case nth_opt (Object_keys x) 1 of Some k \<Rightarrow> k | None \<Rightarrow> ''undefined'')
      in case map_of x k of
           Some arr \<Rightarrow> Inr (length arr)
         | None \<Rightarrow> Inl TypeError)"

text \<open>
  \<open>x[f][i]\<close>: an element of the array, \<open>undefined\<close> past its end and on an
  inherited member; a \<open>TypeError\<close> when \<open>x[f]\<close> is \<open>undefined\<close>.
\<close>

definition column_at :: "jsval list object \<Rightarrow> string \<Rightarrow> nat \<Rightarrow> error + jsval" where
  "column_at x f i =
     (case map_of x f of
        Some arr \<Rightarrow> Inr (case nth_opt arr i of Some v \<Rightarrow> v | None \<Rightarrow> JUndefined)
      | None \<Rightarrow> if f \<in> set Object_prototype_names then Inr JUndefined else Inl TypeError)"

text \<open>The inner loop over \<open>j\<close>, from \<open>j\<close> on, filling \<open>record\<close>.\<close>

fun array_record ::
  "jsval list object \<Rightarrow> nat \<Rightarrow> string list \<Rightarrow> transformation option list \<Rightarrow> nat
     \<Rightarrow> string list \<Rightarrow> jsval object \<Rightarrow> error + jsval object" where
  "array_record x i outnames trans' j [] record = Inr record"
| "array_record x i outnames trans' j (f # fs) record =
     (case column_at x f i of
        Inl e \<Rightarrow> Inl e
      | Inr val \<Rightarrow>
          (case apply_trans trans' j val of
             Inl e \<Rightarrow> Inl e
           | Inr val \<Rightarrow>
               array_record x i outnames trans' (Suc j) fs
                 (set_property record (str_at outnames j) val)))"

definition parseArraysToObjects ::
  "jsval list object \<Rightarrow> string list \<Rightarrow> string list \<Rightarrow> transformation option list
     \<Rightarrow> error + jsval object list" where
  "parseArraysToObjects x fields' outnames trans' =
     (case check_fields x outnames 0 fields' of
        Some e \<Rightarrow> Inl e
      | None \<Rightarrow>
          (case column_length x of
             Inl e \<Rightarrow> Inl e
           | Inr N \<Rightarrow>
               sequence (map (\<lambda>i. array_record x i outnames trans' 0 fields' []) [0..<N])))"

subsection \<open>An array of objects\<close>

text \<open>The inner loop over \<open>j\<close>, from \<open>j\<close> on, filling \<open>record\<close> and \<open>fieldFound\<close>.\<close>

fun object_record ::
  "jsval object \<Rightarrow> string list \<Rightarrow> transformation option list \<Rightarrow> nat \<Rightarrow> string list
     \<Rightarrow> jsval object \<times> bool list \<Rightarrow> error + jsval object \<times> bool list" where
  "object_record d outnames trans' j [] (record, fieldFound) = Inr (record, fieldFound)"
| "object_record d outnames trans' j (f # fs) (record, fieldFound) =
     (let val = get_property d f;
          fieldFound = (if val \<noteq> JUndefined then fieldFound[j := True] else fieldFound)
      in case apply_trans trans' j val of
           Inl e \<Rightarrow> Inl e
         | Inr val \<Rightarrow>
             object_record d outnames trans' (Suc j) fs
               (set_property record (str_at outnames j) val, fieldFound))"

text \<open>The outer loop over the rows.\<close>

fun object_rows ::
  "jsval object list \<Rightarrow> string list \<Rightarrow> string list \<Rightarrow> transformation option list
     \<Rightarrow> jsval object list \<times> bool list \<Rightarrow> error + jsval object list \<times> bool list" where
  "object_rows [] fields' outnames trans' (records, fieldFound) = Inr (records, fieldFound)"
| "object_rows (d # ds) fields' outnames trans' (records, fieldFound) =
     (case object_record d outnames trans' 0 fields' ([], fieldFound) of
        Inl e \<Rightarrow> Inl e
      | Inr (record, fieldFound) \<Rightarrow>
          object_rows ds fields' outnames trans' (records @ [record], fieldFound))"

text \<open>\<open>fieldFound.forEach(function(v, i) { if (!v) {throw ...} })\<close>, from index \<open>i\<close> on.\<close>

fun check_found :: "string list \<Rightarrow> string list \<Rightarrow> nat \<Rightarrow> bool list \<Rightarrow> error option" where
  "check_found fields' outnames i [] = None"
| "check_found fields' outnames i (v # vs) =
     (if \<not> v then Some (not_found (str_at fields' i) (str_at outnames i))
      else check_found fields' outnames (Suc i) vs)"

definition parseObjectsToObjects ::
  "jsval object list \<Rightarrow> string list \<Rightarrow> string list \<Rightarrow> transformation option list
     \<Rightarrow> error + jsval object list" where
  "parseObjectsToObjects x fields' outnames trans' =
     (case object_rows x fields' outnames trans' ([], replicate (length fields') False) of
        Inl e \<Rightarrow> Inl e
      | Inr (records, fieldFound) \<Rightarrow>
          (case check_found fields' outnames 0 fieldFound of
             Some e \<Rightarrow> Inl e
           | None \<Rightarrow> Inr records))"

subsection \<open>The default \<open>parseData\<close> and \<open>parseResponse\<close>\<close>

text \<open>
  The data of a response once \<open>JSON.parse\<close> has run and \<open>json.data || json\<close> is
  taken: an array of objects or an object of arrays.
\<close>

datatype response_data = Rows "jsval object list" | Columns "jsval list object"

fun parseData ::
  "response_data \<Rightarrow> string list \<Rightarrow> string list \<Rightarrow> transformation option list
     \<Rightarrow> error + jsval object list" where
  "parseData (Rows x) fields' outnames trans' = parseObjectsToObjects x fields' outnames trans'"
| "parseData (Columns x) fields' outnames trans' = parseArraysToObjects x fields' outnames trans'"

definition parseResponse ::
  "response_data \<Rightarrow> chain \<Rightarrow> string list \<Rightarrow> string list \<Rightarrow> transformation option list
     \<Rightarrow> error + chain" where
  "parseResponse resp chain fields' outnames trans' =
     (case parseData resp fields' outnames trans' of
        Inl e \<Rightarrow> Inl e
      | Inr records \<Rightarrow> Inr \<lparr>header = header chain, body = records\<rparr>)"

text \<open>Transformations that never throw, whatever they are given.\<close>

definition total_trans :: "transformation option list \<Rightarrow> bool" where
  "total_trans trans' = (\<forall>j t v. nth_opt trans' j = Some (Some t) \<longrightarrow> (\<exists>v'. t v = Inr v'))"

section \<open>The LD source: merging onto the chain\<close>

subsection \<open>Finding the columns to merge on\<close>

text \<open>
  The regular expressions of \<open>findMergeFields\<close> all have the shape
  \<open>/\<bsol>bword\<bsol>b/\<close>, with or without the flag \<open>i\<close>, for a word that starts and
  ends with a word character: the word occurs in the name with no word character right
  before it and none right after it.
\<close>

definition is_word_char :: "char \<Rightarrow> bool" where
  "is_word_char c =
     (let n = (of_char c :: nat)
      in (48 \<le> n \<and> n \<le> 57) \<or> (65 \<le> n \<and> n \<le> 90) \<or> (97 \<le> n \<and> n \<le> 122) \<or> n = 95)"

definition lower_case :: "char \<Rightarrow> char" where
  "lower_case c =
     (let n = (of_char c :: nat) in if 65 \<le> n \<and> n \<le> 90 then char_of (n + 32) else c)"

definition same_text :: "bool \<Rightarrow> string \<Rightarrow> string \<Rightarrow> bool" where
  "same_text ignore_case a b = (if ignore_case then map lower_case a = map lower_case b else a = b)"

text \<open>A match of the word at the start of \<open>s\<close>, the character before being \<open>prev\<close>.\<close>

definition word_here :: "bool \<Rightarrow> string \<Rightarrow> char option \<Rightarrow> string \<Rightarrow> bool" where
  "word_here ignore_case w prev s =
     (length w \<le> length s \<and> same_text ignore_case (take (length w) s) w
        \<and> (case prev of None \<Rightarrow> True | Some c \<Rightarrow> \<not> is_word_char c)
        \<and> (case drop (length w) s of [] \<Rightarrow> True | c # _ \<Rightarrow> \<not> is_word_char c))"

text \<open>A match of the word somewhere in \<open>s\<close>.\<close>

fun word_match :: "bool \<Rightarrow> string \<Rightarrow> char option \<Rightarrow> string \<Rightarrow> bool" where
  "word_match ignore_case w prev [] = word_here ignore_case w prev []"
| "word_match ignore_case w prev (c # cs) =
     (word_here ignore_case w prev (c # cs) \<or> word_match ignore_case w (Some c) cs)"

text \<open>
  \<open>exactMatch(arr)(regexes...)\<close>: for the first expression that exactly one name
  matches, that name; a regular expression is given as its flag and its word.
\<close>

fun exactMatch :: "string list \<Rightarrow> (bool \<times> string) list \<Rightarrow> string option" where
  "exactMatch arr [] = None"
| "exactMatch arr ((ignore_case, w) # regexes) =
     (case filter (\<lambda>x. word_match ignore_case w None x) arr of
        [m] \<Rightarrow> Some m
      | _ \<Rightarrow> exactMatch arr regexes)"

text \<open>\<open>a || b\<close> on optional names: the empty name is as good as none.\<close>

definition or_else :: "string option \<Rightarrow> string option \<Rightarrow> string option" where
  "or_else a b = (case a of Some s \<Rightarrow> if s = [] then b else a | None \<Rightarrow> b)"

record ld_params =
  id_field :: "string option"
  position_field :: "string option"
  pvalue_field :: "string option"

record merge_fields =
  mf_id :: "string option"
  mf_position :: "string option"
  mf_pvalue :: "string option"
  mf_names :: "string list option"

definition findMergeFields :: "ld_params \<Rightarrow> chain \<Rightarrow> merge_fields" where
  "findMergeFields params chain =
     (let dataFields = \<lparr>mf_id = id_field params, mf_position = position_field params,
                        mf_pvalue = pvalue_field params, mf_names = None\<rparr>
      in case body chain of
           [] \<Rightarrow> dataFields
         | row # _ \<Rightarrow>
             (let names = Object_keys row;
                  nameMatch = exactMatch names
              in \<lparr>mf_id = or_else (or_else (mf_id dataFields) (nameMatch [(False, ''variant'')]))
                                    (nameMatch [(False, ''id'')]),
                  mf_position = or_else (mf_position dataFields)
                                    (nameMatch [(True, ''position''), (True, ''pos'')]),
                  mf_pvalue = or_else (or_else (mf_pvalue dataFields)
                                                (nameMatch [(True, ''log_pvalue'')]))
                                    (nameMatch [(True, ''pvalue|neglog10'')]),
                  mf_names = Some names\<rparr>))"

record requested_fields =
  isrefvarin :: "string option"
  isrefvarout :: "string option"
  ldin :: "string option"
  ldout :: "string option"

text \<open>The loop of \<open>findRequestedFields\<close>, from index \<open>i\<close> on.\<close>

fun findRequestedFields_from ::
  "string list \<Rightarrow> nat \<Rightarrow> string list \<Rightarrow> requested_fields \<Rightarrow> requested_fields" where
  "findRequestedFields_from outnames i [] obj = obj"
| "findRequestedFields_from outnames i (f # fs) obj =
     findRequestedFields_from outnames (Suc i) fs
       (if f = ''isrefvar''
        then obj\<lparr>isrefvarin := Some f, isrefvarout := nth_opt outnames i\<rparr>
        else obj\<lparr>ldin := Some f, ldout := nth_opt outnames i\<rparr>)"

definition findRequestedFields :: "string list \<Rightarrow> string list \<Rightarrow> requested_fields" where
  "findRequestedFields fields' outnames =
     findRequestedFields_from outnames 0 fields'
       \<lparr>isrefvarin = None, isrefvarout = None, ldin = None, ldout = None\<rparr>"

subsection \<open>The left join\<close>

text \<open>
  \<open>==\<close> and \<open><\<close> on two values. On two numbers they are equality and order,
  false when one is \<open>NaN\<close>. On other operands the language converts before it compares;
  these cases are left to the two parameters.
\<close>

record comparison =
  other_eq :: "jsval \<Rightarrow> jsval \<Rightarrow> bool"
  other_less :: "jsval \<Rightarrow> jsval \<Rightarrow> bool"

fun loose_eq :: "comparison \<Rightarrow> jsval \<Rightarrow> jsval \<Rightarrow> bool" where
  "loose_eq cmp (JNum (Num a)) (JNum (Num b)) = (a = b)"
| "loose_eq cmp (JNum _) (JNum _) = False"
| "loose_eq cmp a b = other_eq cmp a b"

fun js_less :: "comparison \<Rightarrow> jsval \<Rightarrow> jsval \<Rightarrow> bool" where
  "js_less cmp (JNum (Num a)) (JNum (Num b)) = (a < b)"
| "js_less cmp (JNum _) (JNum _) = False"
| "js_less cmp a b = other_less cmp a b"

text \<open>
  The data of an LD response: the two parallel arrays that the join reads.
\<close>

record ld_data =
  position2 :: "jsval list"
  rsquare :: "jsval list"

text \<open>An array element as a value, and an optional name as a property name.\<close>

definition value_at :: "jsval list \<Rightarrow> nat \<Rightarrow> jsval" where
  "value_at xs i = (case nth_opt xs i of Some v \<Rightarrow> v | None \<Rightarrow> JUndefined)"

definition name_of :: "string option \<Rightarrow> string" where
  "name_of k = (case k of Some s \<Rightarrow> s | None \<Rightarrow> ''undefined'')"

text \<open>
  The \<open>while\<close> loop of \<open>leftJoin\<close>, from the indices \<open>i\<close> and \<open>j\<close> on;
  \<open>pos\<close> is \<open>keys.position\<close> and \<open>rfield\<close> selects the array \<open>rsquare\<close>.
\<close>

function leftJoin_loop ::
  "comparison \<Rightarrow> string \<Rightarrow> string \<Rightarrow> ld_data \<Rightarrow> nat \<Rightarrow> nat \<Rightarrow> jsval object list
     \<Rightarrow> jsval object list" where
  "leftJoin_loop cmp pos lfield right i j left =
     (if i < length left \<and> j < length (position2 right)
      then if loose_eq cmp (get_property (left ! i) pos) (position2 right ! j)
           then leftJoin_loop cmp pos lfield right (Suc i) (Suc j)
                  (left[i := set_property (left ! i) lfield (value_at (rsquare right) j)])
           else if js_less cmp (get_property (left ! i) pos) (position2 right ! j)
           then leftJoin_loop cmp pos lfield right (Suc i) j left
           else leftJoin_loop cmp pos lfield right i (Suc j) left
      else left)"
  by pat_completeness auto
termination
  by (relation "measure (\<lambda>(cmp, pos, lfield, right, i, j, left).
                  (length left - i) + (length (position2 right) - j))") auto

declare leftJoin_loop.simps [simp del]

definition leftJoin ::
  "comparison \<Rightarrow> string \<Rightarrow> jsval object list \<Rightarrow> ld_data \<Rightarrow> string \<Rightarrow> jsval object list" where
  "leftJoin cmp pos left right lfield = leftJoin_loop cmp pos lfield right 0 0 left"

text \<open>
  \<open>tagRefVariant\<close>; \<open>refvar\<close> is text or a number and is not falsy. The test
  \<open>data[i][idfield] && data[i][idfield] === refvar\<close> is then strict equality.
\<close>

definition tagRefVariant ::
  "jsval object list \<Rightarrow> jsval \<Rightarrow> string \<Rightarrow> string \<Rightarrow> jsval object list" where
  "tagRefVariant data' refvar idfield outname =
     map (\<lambda>d. set_property d outname
                (if get_property d idfield = refvar then JNum (Num 1) else JNum (Num 0)))
         data'"

text \<open>What \<open>if (v)\<close> takes for true.\<close>

fun truthy :: "jsval \<Rightarrow> bool" where
  "truthy JUndefined = False"
| "truthy JNull = False"
| "truthy (JBool b) = b"
| "truthy (JNum NaN) = False"
| "truthy (JNum (Num x)) = (x \<noteq> 0)"
| "truthy (JStr s) = (s \<noteq> [])"
| "truthy JOpaque = True"

text \<open>An array of names written out as text: the names with commas in between.\<close>

fun join_names :: "string list \<Rightarrow> string" where
  "join_names [] = []"
| "join_names [x] = x"
| "join_names (x # y # zs) = x @ '','' @ join_names (y # zs)"

text \<open>
  \<open>LDSource.prototype.parseResponse\<close>, on the data of the response once
  \<open>JSON.parse\<close> has run.
\<close>

definition LD_parseResponse ::
  "comparison \<Rightarrow> ld_params \<Rightarrow> ld_data \<Rightarrow> chain \<Rightarrow> string list \<Rightarrow> string list \<Rightarrow> error + chain" where
  "LD_parseResponse cmp params json_data chain fields' outnames =
     (let keys = findMergeFields params chain;
          reqFields = findRequestedFields fields' outnames
      in case or_else (mf_position keys) None of
           None \<Rightarrow> Inl (Throw (''Unable to find position field for merge: ''
                           @ (case mf_names keys of
                                None \<Rightarrow> ''null''
                              | Some names \<Rightarrow> join_names names)))
         | Some pos \<Rightarrow>
             (let joined = leftJoin cmp pos (body chain) json_data (name_of (ldout reqFields));
                  refvar = get_property (header chain) ''ldrefvar''
              in if or_else (isrefvarin reqFields) None \<noteq> None \<and> truthy refvar
                 then Inr (chain\<lparr>body := tagRefVariant joined refvar (name_of (mf_id keys))
                                             (name_of (isrefvarout reqFields))\<rparr>)
                 else Inr (chain\<lparr>body := joined\<rparr>)))"

subsection \<open>The matching that a merge computes\<close>

text \<open>
  The merge on the two lists of positions alone: for every left position, how far into
  the right list its partner is, if it has one. It serves to relate the loop to the
  positions.
\<close>

fun merge_match :: "rat list \<Rightarrow> rat list \<Rightarrow> nat option list" where
  "merge_match [] qs = []"
| "merge_match (p # ps) [] = None # merge_match ps []"
| "merge_match (p # ps) (q # qs) =
     (if p = q then Some 0 # map (map_option Suc) (merge_match ps qs)
      else if p < q then None # merge_match ps (q # qs)
      else map (map_option Suc) (merge_match (p # ps) qs))"

text \<open>A row after the join, given the partner found for it from \<open>j\<close> on.\<close>

definition joined_row ::
  "string \<Rightarrow> ld_data \<Rightarrow> jsval object \<Rightarrow> nat \<Rightarrow> nat option \<Rightarrow> jsval object" where
  "joined_row lfield right row j m =
     (case m of Some m \<Rightarrow> set_property row lfield (value_at (rsquare right) (j + m))
      | None \<Rightarrow> row)"

text \<open>
  A chain of four association rows, two of them at the same position, and an LD response
  for four positions.
\<close>

definition example_row :: "string \<Rightarrow> rat \<Rightarrow> jsval object" where
  "example_row v p =
     [(''assoc:id'', JStr v), (''assoc:position'', JNum (Num p)),
      (''assoc:pvalue|neglog10'', JNum (Num 3))]"

definition example_chain :: chain where
  "example_chain =
     \<lparr>header = [(''ldrefvar'', JStr ''b'')],
      body = [example_row ''a'' 10, example_row ''b'' 20, example_row ''c'' 20,
              example_row ''d'' 30]\<rparr>"

definition example_ld :: ld_data where
  "example_ld =
     \<lparr>position2 = map (\<lambda>q. JNum (Num q)) [10, 15, 20, 40],
      rsquare = map (\<lambda>r. JNum (Num r)) [1 / 2, 3 / 5, 7 / 10, 9 / 10]\<rparr>"

definition no_params :: ld_params where
  "no_params = \<lparr>id_field = None, position_field = None, pvalue_field = None\<rparr>"

section \<open>The requester\<close>

subsection \<open>Transformation functions\<close>

text \<open>
  The registry \<open>transformations\<close> of \<open>LocusZoom.TransformationFunctions\<close> is
  a plain object from names to transformations; the model takes the map of the names
  registered. The lookup \<open>transformations[name]\<close> also finds the members that every
  object inherits, and \<open>getTrans\<close> returns one as it returns a transformation.
  \<open>inherited_member\<close> is what calling it does, as far as the model goes:
  \<open>__proto__\<close> is no function, \<open>__defineGetter__\<close> and
  \<open>__defineSetter__\<close> reject the call for want of a function to define, and what
  the others return depends on the object they are called on and is left opaque.
\<close>

definition inherited_member :: "string \<Rightarrow> transformation" where
  "inherited_member n val =
     (if n \<in> {''__proto__'', ''__defineGetter__'', ''__defineSetter__''} then Inl TypeError
      else Inr JOpaque)"

text \<open>\<open>getTrans\<close>: no name, no transformation; an unknown name throws.\<close>

definition getTrans :: "(string \<rightharpoonup> transformation) \<Rightarrow> string option \<Rightarrow> error + transformation option" where
  "getTrans transformations name =
     (case name of
        None \<Rightarrow> Inr None
      | Some n \<Rightarrow>
          if n = [] then Inr None
          else (case transformations n of
                  Some fun \<Rightarrow> Inr (Some fun)
                | None \<Rightarrow>
                    if n \<in> set Object_prototype_names then Inr (Some (inherited_member n))
                    else Inl (Throw (''transformation '' @ n @ '' not found''))))"

text \<open>The pieces of a text between its pipes, the first piece included.\<close>

fun split_pipes :: "string \<Rightarrow> string list" where
  "split_pipes [] = [[]]"
| "split_pipes (c # cs) =
     (if c = CHR ''|'' then [] # split_pipes cs
      else (case split_pipes cs of p # ps \<Rightarrow> (c # p) # ps | [] \<Rightarrow> [[c]]))"

text \<open>
  The matches of \<open>/\<bsol>|([^\<bsol>|]+)/g\<close> in a text: the pieces that follow a pipe and
  are not empty.
\<close>

definition pipe_names :: "string \<Rightarrow> string list" where
  "pipe_names x = filter (\<lambda>p. p \<noteq> []) (tl (split_pipes x))"

text \<open>
  The function that \<open>parseTransString\<close> returns for several names: each name is
  looked up when the function is called, and the transformations run from the left.
\<close>

fun run_names :: "(string \<rightharpoonup> transformation) \<Rightarrow> string list \<Rightarrow> transformation" where
  "run_names transformations [] val = Inr val"
| "run_names transformations (n # ns) val =
     (case getTrans transformations (Some n) of
        Inl e \<Rightarrow> Inl e
      | Inr None \<Rightarrow> Inl TypeError
      | Inr (Some fun) \<Rightarrow>
          (case fun val of Inl e \<Rightarrow> Inl e | Inr val \<Rightarrow> run_names transformations ns val))"

definition parseTransString ::
  "(string \<rightharpoonup> transformation) \<Rightarrow> string \<Rightarrow> error + transformation option" where
  "parseTransString transformations x =
     (let funs = pipe_names x
      in if length funs = 1 then getTrans transformations (Some (hd funs))
         else if length funs > 1 then Inr (Some (run_names transformations funs))
         else Inr None)"

definition TransformationFunctions_get ::
  "(string \<rightharpoonup> transformation) \<Rightarrow> string option \<Rightarrow> error + transformation option" where
  "TransformationFunctions_get transformations name =
     (case name of
        Some (c # cs) \<Rightarrow>
          if c = CHR ''|'' then parseTransString transformations (c # cs)
          else getTrans transformations name
      | _ \<Rightarrow> getTrans transformations name)"

subsection \<open>Splitting the requested fields\<close>

text \<open>
  The regular expression \<open>/^(?:([^:]+):)?([^:\<bsol>|]*)(\<bsol>|.+)*$/\<close> on a requested
  field. The dot matches anything but a line terminator, so what follows the field name
  is empty, or a pipe and at least one character with no line terminator in it.
\<close>

fun has_line_terminator :: "string \<Rightarrow> bool" where
  "has_line_terminator [] = False"
| "has_line_terminator (c # cs) =
     (c = CHR 0x0A \<or> c = CHR 0x0D
      \<or> take 3 (c # cs) = [CHR 0xE2, CHR 0x80, CHR 0xA8]
      \<or> take 3 (c # cs) = [CHR 0xE2, CHR 0x80, CHR 0xA9]
      \<or> has_line_terminator cs)"

definition trans_part :: "string \<Rightarrow> bool" where
  "trans_part rest =
     (case rest of
        [] \<Rightarrow> True
      | c # t \<Rightarrow> c = CHR ''|'' \<and> t \<noteq> [] \<and> \<not> has_line_terminator t)"

text \<open>
  The match without the namespace group: the longest run of characters that are neither
  colon nor pipe, and the rest.
\<close>

definition field_and_trans :: "string option \<Rightarrow> string \<Rightarrow> (string option \<times> string \<times> string option) option" where
  "field_and_trans ns r =
     (let f = takeWhile (\<lambda>c. c \<noteq> CHR '':'' \<and> c \<noteq> CHR ''|'') r;
          rest = dropWhile (\<lambda>c. c \<noteq> CHR '':'' \<and> c \<noteq> CHR ''|'') r
      in if trans_part rest then Some (ns, f, if rest = [] then None else Some rest) else None)"

text \<open>
  \<open>re.exec(raw)\<close>: the groups 1, 2 and 3, or \<open>None\<close> for \<open>null\<close>. The
  namespace group is tried first, on the text before the first colon; when the match
  cannot be completed that way, the match is tried without it.
\<close>

definition re_exec :: "string \<Rightarrow> (string option \<times> string \<times> string option) option" where
  "re_exec raw =
     (let ns = takeWhile (\<lambda>c. c \<noteq> CHR '':'') raw;
          after = dropWhile (\<lambda>c. c \<noteq> CHR '':'') raw
      in case (if ns \<noteq> [] \<and> after \<noteq> [] then field_and_trans (Some ns) (tl after) else None) of
           Some parts \<Rightarrow> Some parts
         | None \<Rightarrow> field_and_trans None raw)"

record request_group =
  group_outnames :: "string list"
  group_fields :: "string list"
  group_trans :: "transformation option list"

text \<open>
  The body of the \<open>forEach\<close> in \<open>split_requests\<close>. A namespace that names a
  member inherited from \<open>Object.prototype\<close> finds that member in place of a group, and
  the \<open>push\<close> fails.
\<close>

definition split_request ::
  "(string \<rightharpoonup> transformation) \<Rightarrow> string \<Rightarrow> request_group object \<Rightarrow> error + request_group object" where
  "split_request transformations raw requests =
     (case re_exec raw of
        None \<Rightarrow> Inl TypeError
      | Some (p1, fld, p3) \<Rightarrow>
          (let ns = (case p1 of Some n \<Rightarrow> n | None \<Rightarrow> ''base'')
           in case TransformationFunctions_get transformations p3 of
                Inl e \<Rightarrow> Inl e
              | Inr t \<Rightarrow>
                  (case map_of requests ns of
                     None \<Rightarrow>
                       if ns \<in> set Object_prototype_names then Inl TypeError
                       else Inr (requests @ [(ns, \<lparr>group_outnames = [raw], group_fields = [fld], group_trans = [t]\<rparr>)])
                   | Some g \<Rightarrow>
                       Inr (set_property requests ns
                              \<lparr>group_outnames = group_outnames g @ [raw],
                               group_fields = group_fields g @ [fld],
                               group_trans = group_trans g @ [t]\<rparr>))))"

fun split_requests_from ::
  "(string \<rightharpoonup> transformation) \<Rightarrow> string list \<Rightarrow> request_group object \<Rightarrow> error + request_group object" where
  "split_requests_from transformations [] requests = Inr requests"
| "split_requests_from transformations (raw # raws) requests =
     (case split_request transformations raw requests of
        Inl e \<Rightarrow> Inl e
      | Inr requests \<Rightarrow> split_requests_from transformations raws requests)"

definition split_requests ::
  "(string \<rightharpoonup> transformation) \<Rightarrow> string list \<Rightarrow> error + request_group object" where
  "split_requests transformations fs = split_requests_from transformations fs []"

subsection \<open>\<open>getData\<close>\<close>

text \<open>
  A data source as the requester sees it: \<open>getData(state, fields, outnames, trans)\<close>
  throws or returns a function of the chain, which acts on the world \<open>'w\<close> (the caches
  and the network) and resolves to a chain or is rejected.
\<close>

type_synonym ('s, 'w) chain_function = "chain \<Rightarrow> 'w \<Rightarrow> (error + chain) \<times> 'w"

type_synonym ('s, 'w) data_source =
  "'s \<Rightarrow> string list \<Rightarrow> string list \<Rightarrow> transformation option list \<Rightarrow> error + ('s, 'w) chain_function"

text \<open>\<open>ret = ret.then(promises[i])\<close> for every \<open>i\<close>: a rejection skips what follows.\<close>

fun then_all :: "('s, 'w) chain_function list \<Rightarrow> chain \<Rightarrow> 'w \<Rightarrow> (error + chain) \<times> 'w" where
  "then_all [] chain w = (Inr chain, w)"
| "then_all (p # ps) chain w =
     (case p chain w of
        (Inl e, w') \<Rightarrow> (Inl e, w')
      | (Inr chain', w') \<Rightarrow> then_all ps chain' w')"

text \<open>The function mapped over \<open>Object.keys(requests)\<close>.\<close>

definition request_promise ::
  "(string \<rightharpoonup> ('s, 'w) data_source) \<Rightarrow> 's \<Rightarrow> request_group object \<Rightarrow> string
     \<Rightarrow> error + ('s, 'w) chain_function" where
  "request_promise sources st requests key =
     (case sources key of
        None \<Rightarrow> Inl (Throw (''Datasource for namespace '' @ key @ '' not found''))
      | Some source \<Rightarrow>
          (case map_of requests key of
             None \<Rightarrow> Inl TypeError
           | Some g \<Rightarrow> source st (group_fields g) (group_outnames g) (group_trans g)))"

definition Requester_getData ::
  "(string \<rightharpoonup> ('s, 'w) data_source) \<Rightarrow> (string \<rightharpoonup> transformation) \<Rightarrow> 's \<Rightarrow> string list \<Rightarrow> 'w
     \<Rightarrow> (error + chain) \<times> 'w" where
  "Requester_getData sources transformations st fs w =
     (case split_requests transformations fs of
        Inl e \<Rightarrow> (Inl e, w)
      | Inr requests \<Rightarrow>
          (case sequence (map (request_promise sources st requests) (Object_keys requests)) of
             Inl e \<Rightarrow> (Inl e, w)
           | Inr promises \<Rightarrow> then_all promises \<lparr>header = [], body = []\<rparr> w))"

text \<open>
  A source that records, in the world, its namespace and the chain it is given, and adds
  one row to the body.
\<close>

definition logging_source :: "string \<Rightarrow> (unit, (string \<times> chain) list) data_source" where
  "logging_source name st fs outs ts =
     Inr (\<lambda>chain w. (Inr (chain\<lparr>body := body chain @ [[(''from'', JStr name)]]\<rparr>),
                      w @ [(name, chain)]))"

subsection \<open>The order the claim speaks of\<close>

text \<open>
  The namespace of a requested field, ``base'' when it names none, and the namespaces of
  a list of fields in the order of their first appearance.
\<close>

definition namespace_of :: "string \<Rightarrow> string" where
  "namespace_of raw = (case re_exec raw of Some (Some n, _, _) \<Rightarrow> n | _ \<Rightarrow> ''base'')"

fun first_appearances :: "'a list \<Rightarrow> 'a list" where
  "first_appearances [] = []"
| "first_appearances (x # xs) = x # filter (\<lambda>y. y \<noteq> x) (first_appearances xs)"

section \<open>The layout solver: proportional heights\<close>

subsection \<open>\<open>positionPanels\<close>\<close>

text \<open>
  The layout of a panel, as far as the shares are concerned: the pixel height and the two
  proportional dimensions, \<open>None\<close> for \<open>null\<close>.
\<close>

record panel_layout =
  height :: rat
  proportional_height :: "rat option"
  proportional_width :: "rat option"

text \<open>
  A plot: the height of its layout and its panels by identifier. The functions below take
  the rounding of the arithmetic as their first argument \<open>rnd\<close>; the program
  computes with \<open>double\<close>.
\<close>

record plot =
  layout_height :: rat
  panels :: "panel_layout object"

text \<open>The body of the first loop of \<open>positionPanels\<close>, for one panel.\<close>

definition assign_missing :: "(rat \<Rightarrow> rat) \<Rightarrow> rat \<Rightarrow> panel_layout \<Rightarrow> panel_layout" where
  "assign_missing rnd plot_height p =
     p\<lparr>proportional_height :=
         (case proportional_height p of
            None \<Rightarrow> Some (rnd (height p / plot_height))
          | Some x \<Rightarrow> Some x),
       proportional_width :=
         (case proportional_width p of None \<Rightarrow> Some 1 | Some w \<Rightarrow> Some w)\<rparr>"

text \<open>
  What \<open>!layout.proportional_height\<close> takes for missing (\<open>null\<close> or 0), and the body
  of the loop of \<open>sumProportional("height")\<close> for one panel among \<open>N\<close>.
\<close>

definition no_share :: "panel_layout \<Rightarrow> bool" where
  "no_share p = (proportional_height p = None \<or> proportional_height p = Some 0)"

definition equal_share :: "(rat \<Rightarrow> rat) \<Rightarrow> nat \<Rightarrow> panel_layout \<Rightarrow> panel_layout" where
  "equal_share rnd N p =
     (if no_share p then p\<lparr>proportional_height := Some (rnd (1 / of_nat N))\<rparr> else p)"

definition share_of :: "panel_layout \<Rightarrow> rat" where
  "share_of p = (case proportional_height p of Some x \<Rightarrow> x | None \<Rightarrow> 0)"

text \<open>The loop \<open>for (var id in this.panels)\<close> of \<open>sumProportional\<close>, over the names left.\<close>

fun sumProportional_loop ::
  "(rat \<Rightarrow> rat) \<Rightarrow> nat \<Rightarrow> string list \<Rightarrow> panel_layout object \<times> rat \<Rightarrow> panel_layout object \<times> rat" where
  "sumProportional_loop rnd N [] (ps, total') = (ps, total')"
| "sumProportional_loop rnd N (k # ks) (ps, total') =
     (case map_of ps k of
        None \<Rightarrow> sumProportional_loop rnd N ks (ps, total')
      | Some p \<Rightarrow>
          sumProportional_loop rnd N ks
            (set_property ps k (equal_share rnd N p),
             rnd (total' + share_of (equal_share rnd N p))))"

definition sumProportional :: "(rat \<Rightarrow> rat) \<Rightarrow> panel_layout object \<Rightarrow> panel_layout object \<times> rat" where
  "sumProportional rnd ps = sumProportional_loop rnd (length ps) (Object_keys ps) (ps, 0)"

text \<open>
  \<open>positionPanels\<close> up to the normalisation of the proportional heights. The steps that
  follow assign origins, proportional origins and pixel dimensions, and no proportional
  height; they are left out. A plot height of 0, which \<open>initializeLayout\<close> and
  \<open>setDimensions\<close> exclude, would make the shares infinite or \<open>NaN\<close>: \<open>None\<close>.
\<close>

definition positionPanels :: "(rat \<Rightarrow> rat) \<Rightarrow> plot \<Rightarrow> plot option" where
  "positionPanels rnd this =
     (if layout_height this = 0 then None
      else
        let ps = map (\<lambda>(k, p). (k, assign_missing rnd (layout_height this) p)) (panels this);
            (ps, total_proportional_height) = sumProportional rnd ps
        in if total_proportional_height = 0 then Some (this\<lparr>panels := ps\<rparr>)
           else
             let proportional_adjustment = rnd (1 / total_proportional_height)
             in Some (this\<lparr>panels :=
                  map (\<lambda>(k, p). (k, p\<lparr>proportional_height :=
                         map_option (\<lambda>x. rnd (x * proportional_adjustment))
                                    (proportional_height p)\<rparr>)) ps\<rparr>))"

text \<open>Two panels whose layouts give the proportional heights 1 and 5.\<close>

definition example_plot :: plot where
  "example_plot =
     \<lparr>layout_height = 600,
      panels = [(''a'', \<lparr>height = 100, proportional_height = Some 1, proportional_width = Some 1\<rparr>),
                (''b'', \<lparr>height = 500, proportional_height = Some 5,
                         proportional_width = Some 1\<rparr>)]\<rparr>"

text \<open>
  The share a panel enters the normalisation with, among \<open>N\<close> panels on a plot of
  height \<open>H\<close>: its proportional height, or its pixel height over the plot height when
  it has none, or the equal share \<open>1 / N\<close> when that is 0.
\<close>

definition initial_share :: "nat \<Rightarrow> rat \<Rightarrow> panel_layout \<Rightarrow> rat" where
  "initial_share N H p =
     (let s = (case proportional_height p of None \<Rightarrow> height p / H | Some x \<Rightarrow> x)
      in if s = 0 then 1 / of_nat N else s)"

text \<open>
  Three panels without proportional heights, the last without a pixel height, on a plot
  600 high.
\<close>

definition example_plot_null :: plot where
  "example_plot_null =
     \<lparr>layout_height = 600,
      panels = [(''a'', \<lparr>height = 100, proportional_height = None, proportional_width = None\<rparr>),
                (''b'', \<lparr>height = 500, proportional_height = None, proportional_width = None\<rparr>),
                (''c'', \<lparr>height = 0, proportional_height = None, proportional_width = None\<rparr>)]\<rparr>"

section \<open>Properties of double precision\<close>

lemma pow2_powi: "pow2 k = 2 powi k"
  by (simp add: pow2_def power_int_def power_one_over inverse_eq_divide)

lemma pow2_pos: "0 < pow2 k"
  by (simp add: pow2_def)

lemma pow2_add: "pow2 (i + j) = pow2 i * pow2 j"
  by (simp add: pow2_powi power_int_add)

lemma pow2_mono: "i \<le> j \<Longrightarrow> pow2 i \<le> pow2 j"
  unfolding pow2_powi by (rule power_int_increasing) simp_all

lemma pow2_strict_mono: "i < j \<Longrightarrow> pow2 i < pow2 j"
  unfolding pow2_powi by (rule power_int_strict_increasing) simp_all

lemma pow2_less_iff: "pow2 i < pow2 j \<longleftrightarrow> i < j"
  using pow2_mono [of j i] pow2_strict_mono [of i j] by (auto simp: not_less [symmetric])

lemma pow2_nonneg: "0 \<le> k \<Longrightarrow> pow2 k = of_int (2 ^ nat k)"
  by (simp add: pow2_def)

lemma bit_length_bounds:
  "0 < n \<Longrightarrow> 1 \<le> bit_length n \<and> 2 ^ nat (bit_length n - 1) \<le> n \<and> n < 2 ^ nat (bit_length n)"
proof (induction n rule: bit_length.induct)
  case (1 n)
  show ?case
  proof (cases "n div 2 = 0")
    case True
    with 1(2) have n: "n = 1"
      by presburger
    have "bit_length 1 = 1"
      by (simp add: bit_length.simps [of 1] bit_length.simps [of 0])
    with n show ?thesis
      by simp
  next
    case False
    with 1(2) have pos: "0 < n div 2"
      by presburger
    from 1(1) [OF _ pos] 1(2)
    have ih: "1 \<le> bit_length (n div 2)" "2 ^ nat (bit_length (n div 2) - 1) \<le> n div 2"
      "n div 2 < 2 ^ nat (bit_length (n div 2))"
      by simp_all
    have bl: "bit_length n = 1 + bit_length (n div 2)"
      using 1(2) by (simp add: bit_length.simps [of n])
    have e1: "nat (bit_length (n div 2)) = Suc (nat (bit_length (n div 2) - 1))"
      using ih(1) by simp
    have e2: "nat (1 + bit_length (n div 2)) = Suc (nat (bit_length (n div 2)))"
      using ih(1) by simp
    have p1: "(2::int) ^ nat (bit_length (n div 2)) = 2 * 2 ^ nat (bit_length (n div 2) - 1)"
      by (simp only: e1 power_Suc)
    have p2: "(2::int) ^ nat (1 + bit_length (n div 2)) = 2 * 2 ^ nat (bit_length (n div 2))"
      by (simp only: e2 power_Suc)
    have "2 * 2 ^ nat (bit_length (n div 2) - 1) \<le> n"
      using ih(2) by presburger
    moreover have "n < 2 * 2 ^ nat (bit_length (n div 2))"
      using ih(3) by presburger
    ultimately show ?thesis
      using ih(1) by (simp add: bl p1 p2)
  qed
qed

lemma bit_length_pow2:
  assumes "0 < n"
  shows "pow2 (bit_length n - 1) \<le> of_int n" and "of_int n < pow2 (bit_length n)"
proof -
  from bit_length_bounds [OF assms]
  have b: "1 \<le> bit_length n" "2 ^ nat (bit_length n - 1) \<le> n" "n < 2 ^ nat (bit_length n)"
    by simp_all
  have "(of_int (2 ^ nat (bit_length n - 1)) :: rat) \<le> of_int n"
    using b(2) by (simp only: of_int_le_iff)
  then show "pow2 (bit_length n - 1) \<le> of_int n"
    using b(1) by (simp add: pow2_nonneg)
  have "(of_int n :: rat) < of_int (2 ^ nat (bit_length n))"
    using b(3) by (simp only: of_int_less_iff)
  then show "of_int n < pow2 (bit_length n)"
    using b(1) by (simp add: pow2_nonneg)
qed

lemma binary_exponent_bounds:
  assumes "0 < a"
  shows "pow2 (binary_exponent a) \<le> a" and "a < pow2 (binary_exponent a + 1)"
proof -
  obtain n d where q: "quotient_of a = (n, d)"
    by (cases "quotient_of a")
  then have d: "0 < d" and a: "a = of_int n / of_int d"
    by (simp_all add: quotient_of_denom_pos quotient_of_div)
  have n: "0 < n"
    using assms d a by (simp add: zero_less_divide_iff)
  define k where "k = bit_length n - bit_length d"
  have dpos: "(0::rat) < of_int d"
    using d by simp
  have nb: "pow2 (bit_length n - 1) \<le> of_int n" "of_int n < pow2 (bit_length n)"
    using bit_length_pow2 [OF n] by simp_all
  have db: "pow2 (bit_length d - 1) \<le> of_int d" "of_int d < pow2 (bit_length d)"
    using bit_length_pow2 [OF d] by simp_all
  have "pow2 (bit_length n) = pow2 (k + 1) * pow2 (bit_length d - 1)"
    unfolding pow2_add [symmetric] by (simp add: k_def)
  also have "\<dots> \<le> pow2 (k + 1) * of_int d"
    using db(1) pow2_pos [of "k + 1"] by simp
  finally have "of_int n < pow2 (k + 1) * of_int d"
    using nb(2) by simp
  then have up: "a < pow2 (k + 1)"
    using dpos by (simp add: a pos_divide_less_eq)
  have "pow2 (k - 1) * of_int d < pow2 (k - 1) * pow2 (bit_length d)"
    using db(2) pow2_pos [of "k - 1"] by simp
  also have "\<dots> = pow2 (bit_length n - 1)"
    unfolding pow2_add [symmetric] by (simp add: k_def)
  finally have "pow2 (k - 1) * of_int d < of_int n"
    using nb(1) by simp
  then have lo: "pow2 (k - 1) < a"
    using dpos by (simp add: a pos_less_divide_eq)
  have be: "binary_exponent a = (if pow2 k \<le> a then k else k - 1)"
    by (simp add: binary_exponent_def q k_def Let_def)
  show "pow2 (binary_exponent a) \<le> a"
    using lo by (simp add: be)
  show "a < pow2 (binary_exponent a + 1)"
    using up by (simp add: be)
qed

lemma binary_exponent_unique:
  assumes "pow2 e \<le> a" and "a < pow2 (e + 1)"
  shows "binary_exponent a = e"
proof -
  have pos: "0 < a"
    using assms(1) pow2_pos [of e] by simp
  note b = binary_exponent_bounds [OF pos]
  have "pow2 e < pow2 (binary_exponent a + 1)"
    using assms(1) b(2) by simp
  moreover have "pow2 (binary_exponent a) < pow2 (e + 1)"
    using assms(2) b(1) by simp
  ultimately show ?thesis
    by (simp add: pow2_less_iff)
qed

lemma round_half_even_of_int: "round_half_even (of_int q) = q"
  by (simp add: round_half_even_def)

text \<open>A number with a significand of at most 53 bits is a double: rounding leaves it alone.\<close>

lemma double_exact:
  assumes "\<bar>n\<bar> < 2 ^ 53"
  shows "double (of_int n * pow2 j) = of_int n * pow2 j"
proof (cases "n = 0")
  case True
  then show ?thesis
    by (simp add: double_def)
next
  case False
  then have npos: "0 < \<bar>n\<bar>"
    by simp
  define b where "b = bit_length \<bar>n\<bar>"
  have b1: "pow2 (b - 1) \<le> of_int \<bar>n\<bar>" and b2: "of_int \<bar>n\<bar> < pow2 b"
    using bit_length_pow2 [OF npos] by (simp_all add: b_def)
  have "(of_int \<bar>n\<bar> :: rat) < of_int (2 ^ 53)"
    using assms by (simp only: of_int_less_iff)
  then have "(of_int \<bar>n\<bar> :: rat) < pow2 53"
    by (simp add: pow2_def)
  with b1 have "pow2 (b - 1) < pow2 53"
    by simp
  then have b53: "b \<le> 53"
    by (simp add: pow2_less_iff)
  let ?x = "of_int n * pow2 j"
  have ax: "\<bar>?x\<bar> = of_int \<bar>n\<bar> * pow2 j"
    using pow2_pos [of j] by (simp add: abs_mult)
  have "pow2 (b - 1 + j) \<le> \<bar>?x\<bar>"
    unfolding ax pow2_add using b1 pow2_pos [of j] by simp
  moreover have "\<bar>?x\<bar> < pow2 (b - 1 + j + 1)"
    unfolding ax using b2 pow2_pos [of j] pow2_add [of b j] by simp
  ultimately have e: "binary_exponent \<bar>?x\<bar> = b - 1 + j"
    by (rule binary_exponent_unique)
  define u where "u = pow2 (b - 1 + j - 52)"
  have upos: "0 < u"
    by (simp add: u_def pow2_pos)
  have "pow2 j = pow2 (53 - b) * u"
    unfolding u_def pow2_add [symmetric] by simp
  then have xu: "?x = of_int (n * 2 ^ nat (53 - b)) * u"
    using b53 by (simp add: pow2_nonneg)
  have x0: "?x \<noteq> 0"
    using False pow2_pos [of j] by simp
  have "double ?x = of_int (round_half_even (?x / u)) * u"
    using x0 by (simp only: double_def e u_def Let_def if_False)
  also have "?x / u = of_int (n * 2 ^ nat (53 - b))"
    using upos by (simp only: xu) simp
  finally show ?thesis
    by (simp only: round_half_even_of_int xu)
qed

lemma double_int: "x \<in> \<int> \<Longrightarrow> \<bar>x\<bar> < 2 ^ 53 \<Longrightarrow> double x = x"
proof -
  assume "x \<in> \<int>" and b: "\<bar>x\<bar> < 2 ^ 53"
  then obtain n :: int where x: "x = of_int n"
    by (auto elim: Ints_cases)
  have "(of_int \<bar>n\<bar> :: rat) < of_int (2 ^ 53)"
    using b by (simp add: x)
  then have "\<bar>n\<bar> < 2 ^ 53"
    by (simp only: of_int_less_iff)
  from double_exact [OF this, of 0] show ?thesis
    by (simp add: x pow2_def)
qed

lemma double_half: "x \<in> \<int> \<Longrightarrow> \<bar>x\<bar> < 2 ^ 53 \<Longrightarrow> double (x / 2) = x / 2"
proof -
  assume "x \<in> \<int>" and b: "\<bar>x\<bar> < 2 ^ 53"
  then obtain n :: int where x: "x = of_int n"
    by (auto elim: Ints_cases)
  have "(of_int \<bar>n\<bar> :: rat) < of_int (2 ^ 53)"
    using b by (simp add: x)
  then have "\<bar>n\<bar> < 2 ^ 53"
    by (simp only: of_int_less_iff)
  from double_exact [OF this, of "- 1"] show ?thesis
    by (simp add: x pow2_def)
qed


section \<open>Properties of region state validation\<close>

lemma parseInt_Ints: "parseInt x = Some (Num s) \<Longrightarrow> s \<in> \<int>"
  by (cases x) (auto split: if_splits)

lemma Math_round_nonneg: "0 \<le> x \<Longrightarrow> 0 \<le> Math_round x"
  by (simp add: Math_round_def)

text \<open>
  On integer bounds from 1 up to \<open>2^52\<close> the region block computes without
  rounding.
\<close>

lemma resolve_region_numeric:
  assumes "s \<in> \<int>" "e \<in> \<int>" "1 \<le> s" "1 \<le> e" "s < 2 ^ 52" "e < 2 ^ 52"
  shows "resolve_region (Num s) (Num e) =
           \<lparr>v_start = s, v_end = max s e, attempted_midpoint = Math_round ((s + e) / 2),
            attempted_scale = max 0 (e - s)\<rparr>"
proof -
  have d1: "double (s + e) = s + e"
    using assms by (intro double_int) auto
  have d2: "double ((s + e) / 2) = (s + e) / 2"
    using assms by (intro double_half) auto
  have d3: "double (e - s) = e - s"
    using assms by (intro double_int) auto
  have d4: "double 0 = 0"
    by (simp add: double_def)
  have "0 \<le> Math_round ((s + e) / 2)"
    using assms by (intro Math_round_nonneg) simp
  then have "\<not> Math_round ((s + e) / 2) < 0"
    by simp
  then show ?thesis
    by (cases "e - s < 0") (simp_all add: Let_def max_def d1 d2 d3 d4)
qed

text \<open>So does a layout constraint with an integer scale below \<open>2^52\<close>.\<close>

lemma constrain_scale_exact:
  assumes "mid \<in> \<int>" "1 \<le> mid" "mid < 2 ^ 52" "m \<in> \<int>" "0 < m" "m < 2 ^ 52"
  shows "constrain_scale mid m =
           (max (mid - Math_floor (m / 2)) 1, max (mid - Math_floor (m / 2)) 1 + m)"
proof -
  have d1: "double (m / 2) = m / 2"
    using assms by (intro double_half) auto
  have f: "Math_floor (m / 2) \<in> \<int>" "0 \<le> Math_floor (m / 2)" "Math_floor (m / 2) \<le> m"
    using assms(5) by (simp_all add: Math_floor_def) linarith
  have d2: "double (mid - Math_floor (m / 2)) = mid - Math_floor (m / 2)"
    using assms f by (intro double_int) auto
  let ?S = "max (mid - Math_floor (m / 2)) 1"
  have S: "?S \<in> \<int>" "1 \<le> ?S" "?S < 2 ^ 52"
    using assms f by (auto simp: max_def)
  have d3: "double (?S + m) = ?S + m"
    using S assms by (intro double_int) auto
  show ?thesis
    by (simp add: constrain_scale_def Let_def d1 d2 d3)
qed

lemma Math_round_mid:
  assumes "s \<in> \<int>" "e \<in> \<int>" "1 \<le> s" "1 \<le> e" "s < 2 ^ 52" "e < 2 ^ 52"
  shows "Math_round ((s + e) / 2) \<in> \<int>" "1 \<le> Math_round ((s + e) / 2)"
    "Math_round ((s + e) / 2) < 2 ^ 52"
proof -
  show "Math_round ((s + e) / 2) \<in> \<int>"
    by (simp add: Math_round_def)
  have "2 \<le> s + e"
    using assms(3,4) by simp
  then have "1 \<le> (s + e) / 2 + 1 / 2"
    by (simp add: field_simps)
  then have "1 \<le> \<lfloor>(s + e) / 2 + 1 / 2\<rfloor>"
    by (simp add: le_floor_iff)
  then show "1 \<le> Math_round ((s + e) / 2)"
    by (simp add: Math_round_def)
  obtain a b :: int where ab: "s = of_int a" "e = of_int b"
    using assms(1,2) by (auto elim!: Ints_cases)
  have "a < 2 ^ 52" "b < 2 ^ 52"
    using assms(5,6) unfolding ab by (metis of_int_less_iff of_int_numeral of_int_power)+
  then have "a + b + 1 < 2 * 2 ^ 52"
    by simp
  then have "(a + b + 1) div 2 < 2 ^ 52"
    by linarith
  moreover have "\<lfloor>(s + e) / 2 + 1 / 2\<rfloor> = (a + b + 1) div 2"
  proof -
    have "(s + e) / 2 + 1 / 2 = of_int (a + b + 1) / of_int 2"
      by (simp add: ab add_divide_distrib)
    then show ?thesis
      by (simp only: floor_divide_of_int_eq)
  qed
  ultimately show "Math_round ((s + e) / 2) < 2 ^ 52"
    unfolding Math_round_def by (metis of_int_less_iff of_int_numeral of_int_power)
qed

text \<open>What the function does once the three properties are there and the bounds parsed.\<close>

lemma validateState_numeric:
  assumes "chr st = Some c" and "start st = Some s0" and "end' st = Some e0"
    and "parseInt s0 = Some (Num s)" and "parseInt e0 = Some (Num e)"
  shows "validateState st layout =
     (let v = resolve_region (Num (max s 1)) (Num (max e 1));
          (s, e) = (v_start v, v_end v);
          (s, e) = (case min_region_scale layout of
                      Some (Num m) \<Rightarrow>
                        if attempted_scale v < m
                        then constrain_scale (attempted_midpoint v) m else (s, e)
                    | _ \<Rightarrow> (s, e));
          (s, e) = (case max_region_scale layout of
                      Some (Num m) \<Rightarrow>
                        if attempted_scale v > m
                        then constrain_scale (attempted_midpoint v) m else (s, e)
                    | _ \<Rightarrow> (s, e))
      in Some (st\<lparr>start := Some (Num s), end' := Some (Num e)\<rparr>))"
  by (simp only: validateState_def assms prod.case option.case Math_max.simps)

lemma parsed_bounds:
  assumes "parseInt s0 = Some (Num s)" and "parseInt e0 = Some (Num e)"
    and "s < 2 ^ 52" and "e < 2 ^ 52"
  shows "max s 1 \<in> \<int>" "max e 1 \<in> \<int>" "1 \<le> max s 1" "1 \<le> max e 1"
    "max s 1 < 2 ^ 52" "max e 1 < 2 ^ 52"
  using parseInt_Ints [OF assms(1)] parseInt_Ints [OF assms(2)] assms(3,4)
  by (auto simp: max_def)

text \<open>
  With no layout constraint, flipped bounds come out as the former start twice: the
  exchange through \<open>temp\<close> writes the start into the end and then the start
  back into itself, so the former end is lost.
\<close>

lemma validateState_flipped:
  assumes "chr st = Some c" and "start st = Some s0" and "end' st = Some e0"
    and "parseInt s0 = Some (Num s)" and "parseInt e0 = Some (Num e)"
    and "s < 2 ^ 52" and "e < 2 ^ 52"
    and "min_region_scale layout = None" and "max_region_scale layout = None"
    and "max e 1 < max s 1"
  shows "validateState st layout
           = Some (st\<lparr>start := Some (Num (max s 1)), end' := Some (Num (max s 1))\<rparr>)"
  using assms(10)
  by (simp add: validateState_numeric [OF assms(1-5)] assms(8,9)
        resolve_region_numeric [OF parsed_bounds [OF assms(4-7)]] Let_def
        del: resolve_region.simps)

text \<open>
  C3. Claim: for a state with \<open>chr\<close>, \<open>start\<close>, \<open>end\<close> defined and
  \<open>start > end\<close>, validation swaps the two bounds. On the state
  \<open>{chr: "1", start: 10, end: 5}\<close> with an empty layout the code returns
  \<open>start = 10\<close> and \<open>end = 10\<close>: the bounds are not exchanged and the
  value 5 is gone.
\<close>

theorem validateState_flipped_10_5:
  "validateState \<lparr>chr = Some ''1'', start = Some (Num 10), end' = Some (Num 5)\<rparr>
                 \<lparr>min_region_scale = None, max_region_scale = None\<rparr>
     = Some \<lparr>chr = Some ''1'', start = Some (Num 10), end' = Some (Num 10)\<rparr>"
proof -
  have d: "double 15 = 15" "double (15 / 2) = 15 / 2" "double (- 5) = - 5" "double 0 = 0"
    by code_simp+
  show ?thesis
    by (simp add: validateState_def plain_notation_def Math_round_def Let_def d)
qed

lemma doubles_at_2_53:
  "double 18014398509481984 = 18014398509481984"
  "double 9007199254740992 = 9007199254740992"
  "double 0 = 0" "double (1 / 2) = 1 / 2"
  "double 9007199254740993 = 9007199254740992"
  by code_simp+

text \<open>
  C4, as stated: whenever the width is below \<open>min_region_scale\<close> the returned
  width is exactly \<open>min_region_scale\<close>. The end is the double nearest to
  \<open>start + min_region_scale\<close>. For \<open>{chr: "1", start: 2^53, end: 2^53}\<close>
  and \<open>{min_region_scale: 1}\<close> the new start is \<open>2^53\<close> and the sum
  \<open>2^53 + 1\<close> is no double: it is rounded to \<open>2^53\<close>, and the returned
  width is 0.
\<close>

theorem validateState_min_region_scale_counterexample:
  "validateState \<lparr>chr = Some ''1'', start = Some (Num 9007199254740992),
                  end' = Some (Num 9007199254740992)\<rparr>
                 \<lparr>min_region_scale = Some (Num 1), max_region_scale = None\<rparr>
     = Some \<lparr>chr = Some ''1'', start = Some (Num 9007199254740992),
              end' = Some (Num 9007199254740992)\<rparr>"
proof -
  have fl: "\<lfloor>(1::rat) / 2\<rfloor> = 0" "\<lfloor>(18014398509481985::rat) / 2\<rfloor> = 9007199254740992"
    by linarith+
  show ?thesis
    by (simp add: validateState_def plain_notation_def Math_round_def Math_floor_def
          constrain_scale_def Let_def doubles_at_2_53 fl)
qed

lemma doubles_at_tenth:
  "double 200 = 200" "double 100 = 100" "double 0 = 0"
  "double (3602879701896397 / 72057594037927936) = 3602879701896397 / 72057594037927936"
  "double (3606482581598293197 / 36028797018963968) = 3521955646092083 / 35184372088832"
  by code_simp+

text \<open>
  The same happens below \<open>2^53\<close> with a scale that is no integer: for
  \<open>{chr: "1", start: 100, end: 100}\<close> and \<open>{min_region_scale: 0.1}\<close> the end is the
  double nearest to \<open>100 + 0.1\<close>, and the width is not the double \<open>0.1\<close>.
\<close>

lemma validateState_tenth_scale:
  "validateState \<lparr>chr = Some ''1'', start = Some (Num 100), end' = Some (Num 100)\<rparr>
                 \<lparr>min_region_scale = Some (Num (3602879701896397 / 36028797018963968)),
                  max_region_scale = None\<rparr>
     = Some \<lparr>chr = Some ''1'', start = Some (Num 100),
              end' = Some (Num (3521955646092083 / 35184372088832))\<rparr>
   \<and> (3521955646092083 / 35184372088832 - 100 :: rat) \<noteq> 3602879701896397 / 36028797018963968"
proof -
  have fl: "\<lfloor>(3602879701896397::rat) / 72057594037927936\<rfloor> = 0" "\<lfloor>(201::rat) / 2\<rfloor> = 100"
    by linarith+
  show ?thesis
    by (simp add: validateState_def plain_notation_def Math_round_def Math_floor_def
          constrain_scale_def Let_def doubles_at_tenth fl)
qed

lemma doubles_1_6:
  "double 7 = 7" "double (7 / 2) = 7 / 2" "double 5 = 5" "double 0 = 0" "double (- 1) = - 1"
  "double 4 = 4" "double 1 = 1" "double 3 = 3" "double 14 = 14" "double 2 = 2"
  by code_simp+

text \<open>
  The maximum constraint runs after the minimum one and is tested against the same
  attempted width. On a layout whose \<open>max_region_scale\<close> is below its
  \<open>min_region_scale\<close> it can replace the bounds again: for
  \<open>{chr: "1", start: 1, end: 6}\<close> and \<open>{min_region_scale: 10, max_region_scale: 2}\<close>
  the result is \<open>[3, 5]\<close>.
\<close>

lemma validateState_min_above_max:
  "validateState \<lparr>chr = Some ''1'', start = Some (Num 1), end' = Some (Num 6)\<rparr>
                 \<lparr>min_region_scale = Some (Num 10), max_region_scale = Some (Num 2)\<rparr>
     = Some \<lparr>chr = Some ''1'', start = Some (Num 3), end' = Some (Num 5)\<rparr>"
proof -
  have fl: "\<lfloor>(7::rat) / 2 + 1 / 2\<rfloor> = 4"
    by linarith
  show ?thesis
    by (simp add: validateState_def plain_notation_def Math_round_def Math_floor_def
          constrain_scale_def Let_def doubles_1_6 fl)
qed

text \<open>
  C4, amended. Take a region state whose bounds parse to integers below \<open>2^52\<close>,
  an integer \<open>min_region_scale\<close> below \<open>2^52\<close> that exceeds the
  attempted width (\<open>end - start\<close> of the parsed bounds raised to 1, or 0 when
  they are flipped), and a \<open>max_region_scale\<close> that, when it is a number, is not
  below \<open>min_region_scale\<close>. Then the returned bounds are numbers \<open>S\<close>
  and \<open>E\<close> with \<open>E - S\<close> exactly \<open>min_region_scale\<close>, and
  \<open>S\<close> is the rounded midpoint of the parsed bounds less half the scale (rounded
  down), raised to 1 when it would fall below.
\<close>

theorem validateState_min_region_scale:
  assumes "chr st = Some c" and "start st = Some s0" and "end' st = Some e0"
    and "parseInt s0 = Some (Num s)" and "parseInt e0 = Some (Num e)"
    and "s < 2 ^ 52" and "e < 2 ^ 52"
    and "min_region_scale layout = Some (Num m)" and "m \<in> \<int>" and "m < 2 ^ 52"
    and "max 0 (max e 1 - max s 1) < m"
    and "\<forall>M. max_region_scale layout = Some (Num M) \<longrightarrow> m \<le> M"
  shows "\<exists>S E. validateState st layout
                   = Some (st\<lparr>start := Some (Num S), end' := Some (Num E)\<rparr>)
           \<and> E - S = m
           \<and> S = max (Math_round ((max s 1 + max e 1) / 2) - Math_floor (m / 2)) 1"
proof -
  let ?a = "max s 1" and ?b = "max e 1"
  let ?mid = "Math_round ((?a + ?b) / 2)"
  let ?S = "max (?mid - Math_floor (m / 2)) 1"
  note ab = parsed_bounds [OF assms(4-7)]
  note rr = resolve_region_numeric [OF ab]
  have m0: "0 < m"
    using assms(11) by simp
  note cs = constrain_scale_exact [OF Math_round_mid [OF ab] assms(9) m0 assms(10)]
  note vs = validateState_numeric [OF assms(1-5), of layout]
  have "validateState st layout = Some (st\<lparr>start := Some (Num ?S), end' := Some (Num (?S + m))\<rparr>)"
  proof (cases "max_region_scale layout")
    case None
    then show ?thesis
      using assms(11)
      by (simp add: vs assms(8) rr cs Let_def del: resolve_region.simps)
  next
    case (Some M')
    show ?thesis
    proof (cases M')
      case NaN
      then show ?thesis
        using assms(11) Some
        by (simp add: vs assms(8) rr cs Let_def del: resolve_region.simps)
    next
      case (Num M)
      then have "m \<le> M"
        using assms(12) Some by simp
      then have "\<not> M < max 0 (?b - ?a)"
        using assms(11) by linarith
      then show ?thesis
        using assms(11) Some Num
        by (simp add: vs assms(8) rr cs Let_def del: resolve_region.simps)
    qed
  qed
  then show ?thesis
    by (intro exI [of _ ?S] exI [of _ "?S + m"]) simp
qed

theorem validateState_min_region_scale_witness:
  "validateState \<lparr>chr = Some ''1'', start = Some (Num 100), end' = Some (Num 107)\<rparr>
                 \<lparr>min_region_scale = Some (Num 11), max_region_scale = Some (Num 4000)\<rparr>
     = Some \<lparr>chr = Some ''1'', start = Some (Num 99), end' = Some (Num 110)\<rparr>"
proof -
  have fl: "\<lfloor>(11::rat) / 2\<rfloor> = 5" "\<lfloor>(207::rat) / 2 + 1 / 2\<rfloor> = 104"
    by linarith+
  from validateState_min_region_scale
      [of "\<lparr>chr = Some ''1'', start = Some (Num 100), end' = Some (Num 107)\<rparr>" "''1''"
          "Num 100" "Num 107" 100 107
          "\<lparr>min_region_scale = Some (Num 11), max_region_scale = Some (Num 4000)\<rparr>" 11]
  show ?thesis
    by (simp add: plain_notation_def Math_round_def Math_floor_def fl)
qed

section \<open>Properties of the source cache\<close>

lemma getRequest_miss:
  assumes "\<not> (enableCache this \<and> getCacheKey q \<noteq> None \<and> getCacheKey q = cachedKey this)"
  shows "getRequest getCacheKey fetchRequest q (this, io) =
           (case fetchRequest q of
              Inl e \<Rightarrow> (Inl e, this, io @ [q])
            | Inr x \<Rightarrow>
                (Inr (Some x),
                 (if enableCache this
                  then this\<lparr>cachedKey := getCacheKey q, cachedResponse := Some x\<rparr> else this),
                 io @ [q]))"
  using assms by (auto simp: getRequest_def split: sum.splits)

lemma getRequest_hit:
  assumes "enableCache this" and "getCacheKey q = Some k" and "cachedKey this = Some k"
  shows "getRequest getCacheKey fetchRequest q (this, io) = (Inr (cachedResponse this), this, io)"
  using assms by (simp add: getRequest_def)

text \<open>
  C10. When \<open>getCacheKey\<close> gives \<open>undefined\<close> for a request,
  \<open>getRequest\<close> fetches: the request is added to the network traffic and the
  result is the fetch's own outcome, never the stored response, whatever
  \<open>enableCache\<close> and the cache slot hold.
\<close>

theorem getRequest_undefined_key:
  assumes "getCacheKey q = None"
  shows "getRequest getCacheKey fetchRequest q (this, io) =
           (case fetchRequest q of
              Inl e \<Rightarrow> (Inl e, this, io @ [q])
            | Inr x \<Rightarrow>
                (Inr (Some x),
                 (if enableCache this
                  then this\<lparr>cachedKey := None, cachedResponse := Some x\<rparr> else this),
                 io @ [q]))"
  using getRequest_miss [of this getCacheKey q fetchRequest io] assms
  by (simp split: sum.splits)

text \<open>
  C1. For a source with \<open>enableCache\<close> true. A call whose computed key differs
  from the stored key, and whose fetch resolves, adds one request to the network traffic
  and replaces the cache slot by the new key and response. Of two consecutive calls
  computing the same defined key \<open>k\<close>, the first having resolved to \<open>r\<close>:
  the second resolves to \<open>r\<close> with the traffic and the source unchanged, whatever
  the network would answer; and the first fetched once, unless the slot already held
  \<open>k\<close>.
\<close>

theorem getRequest_cache:
  assumes "enableCache this"
  shows "(getCacheKey q \<noteq> cachedKey this \<and> fetchRequest q = Inr x \<longrightarrow>
            getRequest getCacheKey fetchRequest q (this, io) =
              (Inr (Some x), this\<lparr>cachedKey := getCacheKey q, cachedResponse := Some x\<rparr>, io @ [q]))
       \<and> (getCacheKey q1 = Some k \<and> getCacheKey q2 = Some k
            \<and> getRequest getCacheKey fetchRequest q1 (this, io) = (Inr r, this1, io1) \<longrightarrow>
            getRequest getCacheKey fetchRequest' q2 (this1, io1) = (Inr r, this1, io1)
            \<and> io1 = (if cachedKey this = Some k then io else io @ [q1]))"
proof (intro conjI impI)
  assume "getCacheKey q \<noteq> cachedKey this \<and> fetchRequest q = Inr x"
  then show "getRequest getCacheKey fetchRequest q (this, io) =
      (Inr (Some x), this\<lparr>cachedKey := getCacheKey q, cachedResponse := Some x\<rparr>, io @ [q])"
    using assms by (simp add: getRequest_miss)
next
  assume h: "getCacheKey q1 = Some k \<and> getCacheKey q2 = Some k
            \<and> getRequest getCacheKey fetchRequest q1 (this, io) = (Inr r, this1, io1)"
  have "enableCache this1 \<and> cachedKey this1 = Some k \<and> cachedResponse this1 = r
        \<and> io1 = (if cachedKey this = Some k then io else io @ [q1])"
    using h assms by (auto simp: getRequest_def Let_def split: if_splits sum.splits)
  then show "getRequest getCacheKey fetchRequest' q2 (this1, io1) = (Inr r, this1, io1)"
    and "io1 = (if cachedKey this = Some k then io else io @ [q1])"
    using h by (simp_all add: getRequest_hit)
qed


theorem getRequest_undefined_key_witness:
  "getRequest (\<lambda>q. None :: string option) (\<lambda>q. Inr (''fresh for '' @ q)) ''q1''
       (\<lparr>enableCache = True, cachedKey = Some ''u'', cachedResponse = Some ''old''\<rparr>, [])
     = (Inr (Some ''fresh for q1''),
        \<lparr>enableCache = True, cachedKey = None, cachedResponse = Some ''fresh for q1''\<rparr>,
        [''q1''])"
  using getRequest_undefined_key
    [of "\<lambda>q. None :: string option" "''q1''" "\<lambda>q. Inr (''fresh for '' @ q)"
        "\<lparr>enableCache = True, cachedKey = Some ''u'', cachedResponse = Some ''old''\<rparr>" "[]"]
  by simp

theorem getRequest_cache_witness:
  "getRequest Some (\<lambda>q. Inr (''body of '' @ q)) ''u1''
       (\<lparr>enableCache = True, cachedKey = Some ''u0'', cachedResponse = Some ''body of u0''\<rparr>, [''u0''])
     = (Inr (Some ''body of u1''),
        \<lparr>enableCache = True, cachedKey = Some ''u1'', cachedResponse = Some ''body of u1''\<rparr>,
        [''u0'', ''u1''])
   \<and> getRequest Some (\<lambda>q. Inl (Throw ''offline'')) ''u1''
       (\<lparr>enableCache = True, cachedKey = Some ''u1'', cachedResponse = Some ''body of u1''\<rparr>,
        [''u0'', ''u1''])
     = (Inr (Some ''body of u1''),
        \<lparr>enableCache = True, cachedKey = Some ''u1'', cachedResponse = Some ''body of u1''\<rparr>,
        [''u0'', ''u1''])"
proof -
  let ?this = "\<lparr>enableCache = True, cachedKey = Some ''u0'', cachedResponse = Some ''body of u0''\<rparr>"
  let ?this1 = "\<lparr>enableCache = True, cachedKey = Some ''u1'', cachedResponse = Some ''body of u1''\<rparr>"
  note c = getRequest_cache
    [of ?this Some "''u1''" "\<lambda>q. Inr (''body of '' @ q)" "''body of u1''" "[''u0'']"
        "''u1''" "''u1''" "''u1''" "Some ''body of u1''" ?this1 "[''u0'', ''u1'']"
        "\<lambda>q. Inl (Throw ''offline'')"]
  have first: "getRequest Some (\<lambda>q. Inr (''body of '' @ q)) ''u1'' (?this, [''u0''])
                 = (Inr (Some ''body of u1''), ?this1, [''u0'', ''u1''])"
    using c by simp
  then show ?thesis
    using c by simp
qed

section \<open>Properties of the axis extent\<close>

lemma d3_extent_rest_numbers:
  "d3_extent_rest a c (map (\<lambda>x. Some (Num x)) xs)
     = (Min (insert a (set xs)), Max (insert c (set xs)))"
proof (induction xs arbitrary: a c)
  case Nil
  then show ?case by simp
next
  case (Cons x xs)
  have "Min (insert (if x < a then x else a) (set xs)) = Min (insert a (insert x (set xs)))"
    by (cases "set xs = {}") (auto simp: min_def Min_insert2 Min.insert_remove)
  moreover have "Max (insert (if c < x then x else c) (set xs)) = Max (insert c (insert x (set xs)))"
    by (cases "set xs = {}") (auto simp: max_def Max_insert2 Max.insert_remove)
  ultimately show ?case
    using Cons.IH by simp
qed

text \<open>On data that are all numbers, \<open>d3.extent\<close> is the least and the greatest.\<close>

lemma d3_extent_numbers:
  "d3_extent (map (\<lambda>x. Some (Num x)) (x # xs))
     = (Some (Num (Min (set (x # xs)))), Some (Num (Max (set (x # xs)))))"
  by (simp add: d3_extent_rest_numbers)

text \<open>
  C7, as stated: with one of floor and ceiling configured, the bound only tightens the
  data-derived extent and never carries the result past it. On the data 5 and 10 with
  \<open>floor: 0\<close> and nothing else configured, the data-derived extent is
  \<open>[5, 10]\<close>, the data lie inside the bound, and the function returns
  \<open>[0, 10]\<close>: the floor replaces the lower end and widens the extent.
\<close>

theorem getAxisExtent_floor_counterexample:
  "getAxisExtent (\<lambda>d f. Num d)
      \<lparr>x_axis = \<lparr>field = Some ''x'', axis = 1, floor' = None, ceiling' = None, lower_buffer = None,
                 upper_buffer = None, min_extent = None, ticks = None\<rparr>,
       y_axis = \<lparr>field = Some ''y'', axis = 1, floor' = Some (Num 0), ceiling' = None,
                 lower_buffer = None, upper_buffer = None, min_extent = None, ticks = None\<rparr>,
       data = [5, 10],
       state = \<lparr>chr = None, start = None, end' = None\<rparr>\<rparr> ''y''
     = Inr [Some (Num 0), Some (Num 10)]
   \<and> base_extent (\<lambda>d f. Num d)
        \<lparr>field = Some ''y'', axis = 1, floor' = Some (Num 0), ceiling' = None,
         lower_buffer = None, upper_buffer = None, min_extent = None, ticks = None\<rparr> ''y'' [5, 10]
     = (Some (Num 5), Some (Num 10))"
  by (simp add: getAxisExtent_def base_extent_def Let_def)

text \<open>
  C7, amended. For an axis with a field configured and data present: when only the floor
  is a number, the lower end of the result is the floor itself, whether that tightens or
  widens the data-derived extent (after buffers and minimum extent), and the upper end is
  the data-derived one; when only the ceiling is a number, the upper end is the ceiling
  itself and the lower end is the data-derived one.
\<close>

theorem getAxisExtent_single_bound:
  assumes "dimension = ''x'' \<or> dimension = ''y''"
    and "lay = (if dimension = ''x'' then x_axis this else y_axis this)"
    and "field lay = Some f" and "f \<noteq> []" and "data this \<noteq> []"
  shows "(floor' lay = Some (Num lo) \<and> isNaN (ceiling' lay) \<longrightarrow>
            getAxisExtent num_of this dimension
              = Inr [Some (Num lo), snd (base_extent num_of lay f (data this))])
       \<and> (isNaN (floor' lay) \<and> ceiling' lay = Some (Num hi) \<longrightarrow>
            getAxisExtent num_of this dimension
              = Inr [fst (base_extent num_of lay f (data this)), Some (Num hi)])"
  using assms
  by (auto simp: getAxisExtent_def Let_def split: prod.splits)


theorem getAxisExtent_single_bound_witness:
  "getAxisExtent (\<lambda>d f. Num d)
      \<lparr>x_axis = \<lparr>field = Some ''x'', axis = 1, floor' = None, ceiling' = Some (Num 8),
                 lower_buffer = None, upper_buffer = None, min_extent = None, ticks = None\<rparr>,
       y_axis = \<lparr>field = Some ''y'', axis = 1, floor' = Some (Num 0), ceiling' = None,
                 lower_buffer = None, upper_buffer = Some (Num (1 / 10)), min_extent = None,
                 ticks = None\<rparr>,
       data = [5, 10],
       state = \<lparr>chr = None, start = None, end' = None\<rparr>\<rparr> ''y''
     = Inr [Some (Num 0), Some (Num (21 / 2))]
   \<and> getAxisExtent (\<lambda>d f. Num d)
      \<lparr>x_axis = \<lparr>field = Some ''x'', axis = 1, floor' = None, ceiling' = Some (Num 8),
                 lower_buffer = None, upper_buffer = None, min_extent = None, ticks = None\<rparr>,
       y_axis = \<lparr>field = Some ''y'', axis = 1, floor' = Some (Num 0), ceiling' = None,
                 lower_buffer = None, upper_buffer = Some (Num (1 / 10)), min_extent = None,
                 ticks = None\<rparr>,
       data = [5, 10],
       state = \<lparr>chr = None, start = None, end' = None\<rparr>\<rparr> ''x''
     = Inr [Some (Num 5), Some (Num 8)]"
proof -
  let ?x = "\<lparr>field = Some ''x'', axis = 1, floor' = None, ceiling' = Some (Num 8),
             lower_buffer = None, upper_buffer = None, min_extent = None, ticks = None\<rparr>"
  let ?y = "\<lparr>field = Some ''y'', axis = 1, floor' = Some (Num 0), ceiling' = None,
             lower_buffer = None, upper_buffer = Some (Num (1 / 10)), min_extent = None,
             ticks = None\<rparr>"
  let ?layer = "\<lparr>x_axis = ?x, y_axis = ?y, data = [5, 10 :: rat],
               state = \<lparr>chr = None, start = None, end' = None\<rparr>\<rparr>"
  have ey: "base_extent (\<lambda>d f. Num d) ?y ''y'' [5, 10] = (Some (Num 5), Some (Num (21 / 2)))"
    by (simp add: base_extent_def Let_def)
  have ex: "base_extent (\<lambda>d f. Num d) ?x ''x'' [5, 10] = (Some (Num 5), Some (Num 10))"
    by (simp add: base_extent_def Let_def)
  show ?thesis
    using getAxisExtent_single_bound [of "''y''" ?y ?layer "''y''" 0 "\<lambda>d f. Num d" 0]
      getAxisExtent_single_bound [of "''x''" ?x ?layer "''x''" 0 "\<lambda>d f. Num d" 8]
      ey ex
    by simp
qed

section \<open>Properties of dragging\<close>

lemma override_layer_idem:
  "override_layer ax n e (override_layer ax n e layer) = override_layer ax n e layer"
  by (simp add: override_layer_def Let_def)

lemma overrideAxisLayout_eq:
  assumes "set ids \<subseteq> dom layers"
  shows "overrideAxisLayout ax n e ids layers
           = Inr (\<lambda>i. if i \<in> set ids then map_option (override_layer ax n e) (layers i)
                       else layers i)"
  using assms
proof (induction ids arbitrary: layers)
  case Nil
  then show ?case by simp
next
  case (Cons i ids)
  then obtain layer where layer: "layers i = Some layer"
    by auto
  let ?layers = "layers(i \<mapsto> override_layer ax n e layer)"
  have "set ids \<subseteq> dom ?layers"
    using Cons.prems by auto
  then have "overrideAxisLayout ax n e ids ?layers
           = Inr (\<lambda>j. if j \<in> set ids then map_option (override_layer ax n e) (?layers j)
                       else ?layers j)"
    by (rule Cons.IH)
  moreover have "(\<lambda>j. if j \<in> set ids then map_option (override_layer ax n e) (?layers j)
                       else ?layers j)
      = (\<lambda>j. if j \<in> set (i # ids) then map_option (override_layer ax n e) (layers j)
                       else layers j)"
    by (rule ext) (simp add: layer override_layer_idem)
  ultimately show ?case
    by (simp add: layer)
qed


text \<open>The axis layout a drag leaves behind: the extent as floor and ceiling, no other directive.\<close>

lemma override_layer_x:
  "override_layer ''x'' n e layer =
     (if axis (x_axis layer) = n
      then layer\<lparr>x_axis := (x_axis layer)\<lparr>floor' := element e 0, ceiling' := element e 1,
              lower_buffer := None, upper_buffer := None, min_extent := None, ticks := None\<rparr>\<rparr>
      else layer)"
  by (simp add: override_layer_def Let_def)

lemma override_layer_y:
  "override_layer ''y'' n e layer =
     (if axis (y_axis layer) = n
      then layer\<lparr>y_axis := (y_axis layer)\<lparr>floor' := element e 0, ceiling' := element e 1,
              lower_buffer := None, upper_buffer := None, min_extent := None, ticks := None\<rparr>\<rparr>
      else layer)"
  by (simp add: override_layer_def Let_def)

text \<open>
  C8. \<open>toggleDragging\<close> called while a drag is in progress, on a panel whose
  listed data layers all exist, ends the drag, and every data layer comes out as follows.
  If the drag was of the background or of an x tick and \<open>dragged_x\<close> is not 0, a
  listed layer whose x axis is axis 1 has, in its x axis layout, floor and ceiling set to
  the two ends of \<open>x_extent\<close> and \<open>lower_buffer\<close>, \<open>upper_buffer\<close>,
  \<open>min_extent\<close> and \<open>ticks\<close> removed; likewise for a drag of a y1 (y2) tick
  with \<open>dragged_y\<close> not 0, the y axis layout of a listed layer on y axis 1 (2) and
  \<open>y1_extent\<close> (\<open>y2_extent\<close>). Every other layer, and every layer when the
  displacement is 0, is unchanged in all its fields.
\<close>

theorem toggleDragging_commit:
  assumes "interactions_dragging this = Some d"
    and "set (data_layer_ids_by_z_index this) \<subseteq> dom (data_layers this)"
  shows "\<exists>this'. toggleDragging m coords this = Inr this'
          \<and> interactions_dragging this' = None
          \<and> (\<forall>i layer. data_layers this i = Some layer \<longrightarrow>
                data_layers this' i = Some
                 (if i \<in> set (data_layer_ids_by_z_index this)
                     \<and> (drag_method d = Some ''background'' \<or> drag_method d = Some ''x_tick'')
                     \<and> dragged_x d \<noteq> 0 \<and> axis (x_axis layer) = 1
                  then layer\<lparr>x_axis := (x_axis layer)
                         \<lparr>floor' := element (x_extent this) 0, ceiling' := element (x_extent this) 1,
                          lower_buffer := None, upper_buffer := None,
                          min_extent := None, ticks := None\<rparr>\<rparr>
                  else if i \<in> set (data_layer_ids_by_z_index this)
                     \<and> drag_method d = Some ''y1_tick''
                     \<and> dragged_y d \<noteq> 0 \<and> axis (y_axis layer) = 1
                  then layer\<lparr>y_axis := (y_axis layer)
                         \<lparr>floor' := element (y1_extent this) 0, ceiling' := element (y1_extent this) 1,
                          lower_buffer := None, upper_buffer := None,
                          min_extent := None, ticks := None\<rparr>\<rparr>
                  else if i \<in> set (data_layer_ids_by_z_index this)
                     \<and> drag_method d = Some ''y2_tick''
                     \<and> dragged_y d \<noteq> 0 \<and> axis (y_axis layer) = 2
                  then layer\<lparr>y_axis := (y_axis layer)
                         \<lparr>floor' := element (y2_extent this) 0, ceiling' := element (y2_extent this) 1,
                          lower_buffer := None, upper_buffer := None,
                          min_extent := None, ticks := None\<rparr>\<rparr>
                  else layer))"
proof -
  note ov = overrideAxisLayout_eq [OF assms(2)]
  consider (x) "drag_method d = Some ''background'' \<or> drag_method d = Some ''x_tick''"
    | (y1) "drag_method d = Some ''y1_tick''"
    | (y2) "drag_method d = Some ''y2_tick''"
    | (other) "drag_method d \<noteq> Some ''background''" "drag_method d \<noteq> Some ''x_tick''"
              "drag_method d \<noteq> Some ''y1_tick''" "drag_method d \<noteq> Some ''y2_tick''"
    by blast
  then show ?thesis
  proof cases
    case x
    then show ?thesis
      using assms(1)
      by (cases "dragged_x d = 0")
         (auto simp: toggleDragging_def stop_dragging_def ov override_layer_x)
  next
    case y1
    then show ?thesis
      using assms(1)
      by (cases "dragged_y d = 0")
         (auto simp: toggleDragging_def stop_dragging_def ov override_layer_y)
  next
    case y2
    then show ?thesis
      using assms(1)
      by (cases "dragged_y d = 0")
         (auto simp: toggleDragging_def stop_dragging_def ov override_layer_y)
  next
    case other
    then show ?thesis
      using assms(1)
      by (simp add: toggleDragging_def stop_dragging_def)
  qed
qed


theorem toggleDragging_commit_witness:
  "\<exists>this'. toggleDragging None (45, 60) example_panel = Inr this'
      \<and> data_layers this' ''a'' = Some ((example_layer 1)\<lparr>y_axis :=
            \<lparr>field = Some ''v'', axis = 1, floor' = Some (Num 2), ceiling' = Some (Num 12),
             lower_buffer = None, upper_buffer = None, min_extent = None, ticks = None\<rparr>\<rparr>)
      \<and> data_layers this' ''b'' = Some (example_layer 2)"
proof -
  have d: "interactions_dragging example_panel =
      Some \<lparr>drag_method = Some ''y1_tick'', panel_id = ''p'', start_x = 40, start_y = 60,
            dragged_x = 0, dragged_y = 5, on_x = False, on_y1 = True, on_y2 = False\<rparr>"
    and ids: "set (data_layer_ids_by_z_index example_panel) \<subseteq> dom (data_layers example_panel)"
    and a: "data_layers example_panel ''a'' = Some (example_layer 1)"
    and b: "data_layers example_panel ''b'' = Some (example_layer 2)"
    by (simp_all add: example_panel_def)
  from toggleDragging_commit [OF d ids, of None "(45, 60)"]
  obtain this' where r: "toggleDragging None (45, 60) example_panel = Inr this'"
    and l: "\<And>i layer. data_layers example_panel i = Some layer \<Longrightarrow>
          data_layers this' i = Some
           (if i \<in> set (data_layer_ids_by_z_index example_panel) \<and> axis (y_axis layer) = 1
            then layer\<lparr>y_axis := (y_axis layer)
                   \<lparr>floor' := element (y1_extent example_panel) 0,
                    ceiling' := element (y1_extent example_panel) 1,
                    lower_buffer := None, upper_buffer := None,
                    min_extent := None, ticks := None\<rparr>\<rparr>
            else layer)"
    by auto
  have "data_layers this' ''a'' = Some ((example_layer 1)\<lparr>y_axis :=
            \<lparr>field = Some ''v'', axis = 1, floor' = Some (Num 2), ceiling' = Some (Num 12),
             lower_buffer = None, upper_buffer = None, min_extent = None, ticks = None\<rparr>\<rparr>)"
    using l [OF a] by (simp add: example_layer_def example_axis_def example_panel_def)
  moreover have "data_layers this' ''b'' = Some (example_layer 2)"
    using l [OF b] by (simp add: example_layer_def example_axis_def)
  ultimately show ?thesis
    using r by blast
qed

section \<open>Properties of response parsing\<close>

lemma check_fields_first_missing:
  assumes "i < length fs" and "\<not> has_property (fs ! i) x"
    and "\<forall>j<i. has_property (fs ! j) x"
  shows "check_fields x outnames k fs = Some (not_found (fs ! i) (str_at outnames (k + i)))"
  using assms
proof (induction fs arbitrary: i k)
  case Nil
  then show ?case by simp
next
  case (Cons f fs)
  show ?case
  proof (cases i)
    case 0
    then show ?thesis using Cons.prems by simp
  next
    case (Suc i')
    then have "has_property f x"
      using Cons.prems(3) by auto
    moreover have "check_fields x outnames (Suc k) fs
        = Some (not_found (fs ! i') (str_at outnames (Suc k + i')))"
      using Cons.prems Suc by (intro Cons.IH) auto
    ultimately show ?thesis
      using Suc by simp
  qed
qed

text \<open>
  An object of arrays is checked before anything is transformed: the first requested
  field that is not in the response is reported with its output name.
\<close>

lemma parseArraysToObjects_missing:
  assumes "i < length fields'" and "\<not> has_property (fields' ! i) x"
    and "\<forall>j<i. has_property (fields' ! j) x"
  shows "parseArraysToObjects x fields' outnames trans'
           = Inl (not_found (fields' ! i) (str_at outnames i))"
  using check_fields_first_missing [OF assms, of outnames 0]
  by (simp add: parseArraysToObjects_def)

lemma apply_trans_total: "total_trans trans' \<Longrightarrow> \<exists>v'. apply_trans trans' j v = Inr v'"
  by (auto simp: total_trans_def apply_trans_def split: option.splits)

lemma object_record_total:
  assumes "total_trans trans'" and "j + length fs \<le> length found"
  shows "\<exists>rec' found'. object_record d outnames trans' j fs (rec, found) = Inr (rec', found')
           \<and> length found' = length found
           \<and> (\<forall>k<length found. found' ! k =
                 (found ! k \<or> (j \<le> k \<and> k < j + length fs \<and> get_property d (fs ! (k - j)) \<noteq> JUndefined)))"
  using assms(2)
proof (induction fs arbitrary: j rec found)
  case Nil
  then show ?case by auto
next
  case (Cons f fs)
  let ?found = "if get_property d f \<noteq> JUndefined then found[j := True] else found"
  obtain v' where v': "apply_trans trans' j (get_property d f) = Inr v'"
    using apply_trans_total [OF assms(1)] by blast
  have len: "Suc j + length fs \<le> length ?found"
    using Cons.prems by simp
  from Cons.IH [OF len, of "set_property rec (str_at outnames j) v'"]
  obtain rec' found' where
    r: "object_record d outnames trans' (Suc j) fs
          (set_property rec (str_at outnames j) v', ?found) = Inr (rec', found')"
    and l: "length found' = length ?found"
    and f: "\<forall>k<length ?found. found' ! k =
                 (?found ! k \<or> (Suc j \<le> k \<and> k < Suc j + length fs
                    \<and> get_property d (fs ! (k - Suc j)) \<noteq> JUndefined))"
    by blast
  have "object_record d outnames trans' j (f # fs) (rec, found) = Inr (rec', found')"
    using r v' by (simp add: Let_def)
  moreover have "length found' = length found"
    using l by simp
  moreover have "\<forall>k<length found. found' ! k =
       (found ! k \<or> (j \<le> k \<and> k < j + length (f # fs)
          \<and> get_property d ((f # fs) ! (k - j)) \<noteq> JUndefined))"
  proof (intro allI impI)
    fix k assume k: "k < length found"
    then have fk: "found' ! k = (?found ! k \<or> (Suc j \<le> k \<and> k < Suc j + length fs
                    \<and> get_property d (fs ! (k - Suc j)) \<noteq> JUndefined))"
      using f by simp
    show "found' ! k = (found ! k \<or> (j \<le> k \<and> k < j + length (f # fs)
          \<and> get_property d ((f # fs) ! (k - j)) \<noteq> JUndefined))"
    proof (cases "k = j")
      case True
      then show ?thesis using fk k by (simp add: nth_list_update)
    next
      case False
      then have "(f # fs) ! (k - j) = fs ! (k - Suc j)" if "j \<le> k"
        using that by (simp add: nth_Cons')
      then show ?thesis using fk k False
        by (auto simp: nth_list_update)
    qed
  qed
  ultimately show ?case by blast
qed


lemma object_rows_total:
  assumes "total_trans trans'" and "length found = length fields'"
  shows "\<exists>records' found'.
           object_rows ds fields' outnames trans' (records, found) = Inr (records', found')
           \<and> length found' = length found
           \<and> (\<forall>k<length found. found' ! k =
                 (found ! k \<or> (\<exists>d\<in>set ds. get_property d (fields' ! k) \<noteq> JUndefined)))"
  using assms(2)
proof (induction ds arbitrary: records found)
  case Nil
  then show ?case by simp
next
  case (Cons d ds)
  from object_record_total [OF assms(1), of 0 fields' found d outnames "[]"] Cons.prems
  obtain rec' found1 where
    r: "object_record d outnames trans' 0 fields' ([], found) = Inr (rec', found1)"
    and l: "length found1 = length found"
    and f: "\<forall>k<length found. found1 ! k =
              (found ! k \<or> get_property d (fields' ! k) \<noteq> JUndefined)"
    by auto
  from Cons.IH [of found1 "records @ [rec']"] l Cons.prems
  obtain records' found' where
    r': "object_rows ds fields' outnames trans' (records @ [rec'], found1) = Inr (records', found')"
    and l': "length found' = length found1"
    and f': "\<forall>k<length found1. found' ! k =
              (found1 ! k \<or> (\<exists>d\<in>set ds. get_property d (fields' ! k) \<noteq> JUndefined))"
    by auto
  have "object_rows (d # ds) fields' outnames trans' (records, found) = Inr (records', found')"
    using r r' by simp
  moreover have "length found' = length found"
    using l l' by simp
  moreover have "\<forall>k<length found. found' ! k =
       (found ! k \<or> (\<exists>d\<in>set (d # ds). get_property d (fields' ! k) \<noteq> JUndefined))"
    using f f' l by auto
  ultimately show ?case by blast
qed

lemma check_found_first_missing:
  assumes "i < length vs" and "\<not> vs ! i" and "\<forall>j<i. vs ! j"
  shows "check_found fields' outnames k vs
           = Some (not_found (str_at fields' (k + i)) (str_at outnames (k + i)))"
  using assms
proof (induction vs arbitrary: i k)
  case Nil
  then show ?case by simp
next
  case (Cons v vs)
  show ?case
  proof (cases i)
    case 0
    then show ?thesis using Cons.prems by simp
  next
    case (Suc i')
    then have "v"
      using Cons.prems(3) by auto
    moreover have "check_found fields' outnames (Suc k) vs
        = Some (not_found (str_at fields' (Suc k + i')) (str_at outnames (Suc k + i')))"
      using Cons.prems Suc by (intro Cons.IH) auto
    ultimately show ?thesis
      using Suc by simp
  qed
qed

text \<open>
  An array of objects is transformed first and checked afterwards. When no transformation
  throws, the first requested field that is undefined in every row is reported with its
  output name.
\<close>

lemma parseObjectsToObjects_missing:
  assumes "total_trans trans'" and "i < length fields'"
    and "\<forall>d\<in>set x. get_property d (fields' ! i) = JUndefined"
    and "\<forall>j<i. \<exists>d\<in>set x. get_property d (fields' ! j) \<noteq> JUndefined"
  shows "parseObjectsToObjects x fields' outnames trans'
           = Inl (not_found (fields' ! i) (str_at outnames i))"
proof -
  from object_rows_total [OF assms(1), of "replicate (length fields') False" fields' x outnames "[]"]
  obtain records found where
    r: "object_rows x fields' outnames trans' ([], replicate (length fields') False)
          = Inr (records, found)"
    and l: "length found = length fields'"
    and f: "\<forall>k<length fields'. found ! k =
              (\<exists>d\<in>set x. get_property d (fields' ! k) \<noteq> JUndefined)"
    by auto
  have "check_found fields' outnames 0 found
          = Some (not_found (str_at fields' (0 + i)) (str_at outnames (0 + i)))"
    using assms(2-4) l f by (intro check_found_first_missing) auto
  then show ?thesis
    using r assms(2) by (simp add: parseObjectsToObjects_def str_at_def nth_opt_def)
qed

text \<open>
  C6. Claim: a requested field that is absent from the response makes the parse throw an
  error naming the field and its output name. For the response \<open>[{id: 1}]\<close> and the
  request of \<open>pvalue\<close> under the output name \<open>assoc:pvalue|scinotation\<close>, the
  transformation is applied to \<open>undefined\<close> before the check is reached, and what is
  thrown is its \<open>TypeError\<close>, which names neither.
\<close>

theorem parseObjectsToObjects_scinotation_missing:
  "parseResponse (Rows [[(''id'', JNum (Num 1))]]) \<lparr>header = [], body = []\<rparr>
      [''pvalue''] [''assoc:pvalue|scinotation''] [Some (scinotation (\<lambda>r. ''''))]
     = Inl TypeError"
  by (simp add: parseResponse_def parseObjectsToObjects_def get_property_def
        Object_prototype_names_def apply_trans_def nth_opt_def scinotation_def)

section \<open>Properties of the LD merge\<close>

lemma length_merge_match [simp]: "length (merge_match ps qs) = length ps"
  by (induction ps qs rule: merge_match.induct) auto

lemma merge_match_Nil2 [simp]: "i < length ps \<Longrightarrow> merge_match ps [] ! i = None"
  by (induction ps arbitrary: i) (auto simp: nth_Cons')

text \<open>
  On two ascending lists, the merge pairs the \<open>k\<close>-th occurrence of a position on
  the left with the \<open>k\<close>-th occurrence of the same position on the right, and
  nothing else.
\<close>

lemma merge_match_sorted:
  assumes "sorted ps" and "sorted qs" and "i < length ps"
  shows "merge_match ps qs ! i = Some j \<longleftrightarrow>
           (j < length qs \<and> qs ! j = ps ! i
            \<and> count_list (take j qs) (ps ! i) = count_list (take i ps) (ps ! i))"
  using assms
proof (induction ps qs arbitrary: i j rule: merge_match.induct)
  case (1 qs)
  then show ?case by simp
next
  case (2 p ps)
  have "merge_match (p # ps) [] ! i = None"
    using "2.prems"(3) by (intro merge_match_Nil2)
  then show ?case by simp
next
  case (3 p ps q qs)
  have sps: "sorted ps" and sqs: "sorted qs"
    using "3.prems" by simp_all
  consider (eq) "p = q" | (lt) "p < q" | (gt) "q < p"
    by fastforce
  then show ?case
  proof cases
    case eq
    show ?thesis
    proof (cases i)
      case 0
      show ?thesis
      proof (cases j)
        case 0
        then show ?thesis using eq \<open>i = 0\<close> by simp
      next
        case (Suc j')
        then show ?thesis using eq \<open>i = 0\<close> by simp
      qed
    next
      case (Suc i')
      then have i': "i' < length ps"
        using "3.prems" by simp
      note IH = "3.IH"(1) [OF eq sps sqs i']
      show ?thesis
      proof (cases j)
        case 0
        then show ?thesis using eq Suc i' by (auto simp: nth_Cons')
      next
        case (Suc j')
        then show ?thesis
          using eq \<open>i = Suc i'\<close> i' IH [of j'] by (auto simp: nth_Cons')
      qed
    qed
  next
    case lt
    have all_gt: "\<forall>x\<in>set (q # qs). p < x"
      using lt "3.prems"(2) by auto
    show ?thesis
    proof (cases i)
      case 0
      have "\<not> (j < length (q # qs) \<and> (q # qs) ! j = p)"
        using all_gt by (metis nth_mem order_less_irrefl)
      then show ?thesis using lt 0 by auto
    next
      case (Suc i')
      then have i': "i' < length ps"
        using "3.prems" by simp
      have ne: "p \<noteq> q" using lt by simp
      note IH = "3.IH"(2) [OF ne lt sps "3.prems"(2) i', of j]
      show ?thesis
      proof (cases "ps ! i' = p")
        case True
        have "\<not> (j < length (q # qs) \<and> (q # qs) ! j = p)"
          using all_gt by (metis nth_mem order_less_irrefl)
        then show ?thesis
          using lt Suc IH True by auto
      next
        case False
        then show ?thesis
          using lt Suc IH by auto
      qed
    qed
  next
    case gt
    have ne: "p \<noteq> q" and nlt: "\<not> p < q" using gt by simp_all
    have ge: "\<forall>x\<in>set (p # ps). q < x"
      using gt "3.prems"(1) by auto
    then have neq: "(p # ps) ! i \<noteq> q"
      using "3.prems"(3) by (metis nth_mem order_less_irrefl)
    note IH = "3.IH"(3) [OF ne nlt "3.prems"(1) sqs "3.prems"(3)]
    show ?thesis
    proof (cases j)
      case 0
      then show ?thesis using gt neq "3.prems"(3) by (auto simp: nth_map)
    next
      case (Suc j')
      then show ?thesis
        using gt neq "3.prems"(3) IH [of j'] by (auto simp: nth_map)
    qed
  qed
qed


text \<open>
  The loop, started anywhere, changes the rows from \<open>i\<close> on as the merge of the
  remaining positions says, and leaves the rows before \<open>i\<close> alone.
\<close>

lemma leftJoin_loop_merge:
  assumes "length ps = length left"
    and "\<forall>k. i \<le> k \<and> k < length left \<longrightarrow> get_property (left ! k) pos = JNum (Num (ps ! k))"
    and "position2 right = map (\<lambda>q. JNum (Num q)) qs"
  shows "leftJoin_loop cmp pos lfield right i j left =
    map (\<lambda>k. if k < i then left ! k
             else joined_row lfield right (left ! k) j (merge_match (drop i ps) (drop j qs) ! (k - i)))
        [0..<length left]"
  using assms
proof (induction cmp pos lfield right i j left rule: leftJoin_loop.induct)
  case (1 cmp pos lfield right i j left)
  let ?mm = "\<lambda>i j. merge_match (drop i ps) (drop j qs)"
  let ?spec = "\<lambda>i j left. map (\<lambda>k. if k < i then left ! k
             else joined_row lfield right (left ! k) j (?mm i j ! (k - i))) [0..<length left]"
  have lq: "length (position2 right) = length qs"
    using "1.prems"(3) by simp
  show ?case
  proof (cases "i < length left \<and> j < length (position2 right)")
    case False
    have "?spec i j left = map (\<lambda>k. left ! k) [0..<length left]"
    proof (rule map_cong [OF refl])
      fix k assume "k \<in> set [0..<length left]"
      then have k: "k < length left" by simp
      show "(if k < i then left ! k
             else joined_row lfield right (left ! k) j (?mm i j ! (k - i))) = left ! k"
      proof (cases "k < i")
        case True
        then show ?thesis by simp
      next
        case ki: False
        then have "i < length left" using k by simp
        then have "drop j qs = []" using False lq by simp
        moreover have "k - i < length (drop i ps)"
          using ki k "1.prems"(1) by simp
        ultimately have "?mm i j ! (k - i) = None"
          by simp
        then show ?thesis by (simp add: joined_row_def)
      qed
    qed
    also have "\<dots> = left"
      by (simp add: map_nth)
    finally have "?spec i j left = left" .
    moreover have "leftJoin_loop cmp pos lfield right i j left = left"
      using False by (subst leftJoin_loop.simps) auto
    ultimately show ?thesis
      by simp
  next
    case True
    then have i: "i < length left" and j: "j < length qs"
      using lq by simp_all
    have pi: "get_property (left ! i) pos = JNum (Num (ps ! i))"
      using "1.prems"(2) i by simp
    have qj: "position2 right ! j = JNum (Num (qs ! j))"
      using "1.prems"(3) j by simp
    have dps: "drop i ps = ps ! i # drop (Suc i) ps"
      using i "1.prems"(1) by (simp add: Cons_nth_drop_Suc)
    have dqs: "drop j qs = qs ! j # drop (Suc j) qs"
      using j by (simp add: Cons_nth_drop_Suc)
    consider (eq) "ps ! i = qs ! j" | (lt) "ps ! i < qs ! j" | (gt) "qs ! j < ps ! i"
      by fastforce
    then show ?thesis
    proof cases
      case eq
      let ?left = "left[i := set_property (left ! i) lfield (value_at (rsquare right) j)]"
      have c: "loose_eq cmp (get_property (left ! i) pos) (position2 right ! j)"
        using eq pi qj by simp
      have "merge_match (ps ! i # drop (Suc i) ps) (qs ! j # drop (Suc j) qs)
              = Some 0 # map (map_option Suc) (?mm (Suc i) (Suc j))"
        using eq by simp
      then have mm: "?mm i j = Some 0 # map (map_option Suc) (?mm (Suc i) (Suc j))"
        by (simp only: dps [symmetric] dqs [symmetric])
      have "leftJoin_loop cmp pos lfield right (Suc i) (Suc j) ?left = ?spec (Suc i) (Suc j) ?left"
        using "1.prems" by (intro "1.IH"(1) [OF True c]) (simp_all add: nth_list_update)
      also have "\<dots> = ?spec i j left"
      proof (simp only: length_list_update, rule map_cong [OF refl])
        fix k assume "k \<in> set [0..<length left]"
        then have k: "k < length left" by simp
        consider "k < i" | "k = i" | "i < k" by fastforce
        then show "(if k < Suc i then ?left ! k
             else joined_row lfield right (?left ! k) (Suc j) (?mm (Suc i) (Suc j) ! (k - Suc i)))
          = (if k < i then left ! k
             else joined_row lfield right (left ! k) j (?mm i j ! (k - i)))"
        proof cases
          case 1
          then show ?thesis by simp
        next
          case 2
          then show ?thesis
            using i by (simp add: mm joined_row_def)
        next
          case 3
          then have "k - i = Suc (k - Suc i)" by simp
          moreover have "k - Suc i < length (?mm (Suc i) (Suc j))"
            using 3 k "1.prems"(1) by simp
          ultimately show ?thesis
            using 3 by (simp add: mm joined_row_def split: option.splits)
        qed
      qed
      finally show ?thesis
        using True c by (subst leftJoin_loop.simps) simp
    next
      case lt
      have c: "\<not> loose_eq cmp (get_property (left ! i) pos) (position2 right ! j)"
        and c': "js_less cmp (get_property (left ! i) pos) (position2 right ! j)"
        using lt pi qj by simp_all
      have "merge_match (ps ! i # drop (Suc i) ps) (qs ! j # drop (Suc j) qs)
              = None # merge_match (drop (Suc i) ps) (qs ! j # drop (Suc j) qs)"
        using lt by simp
      then have mm: "?mm i j = None # ?mm (Suc i) j"
        by (simp only: dps [symmetric] dqs [symmetric])
      have "leftJoin_loop cmp pos lfield right (Suc i) j left = ?spec (Suc i) j left"
        using "1.prems" by (intro "1.IH"(2) [OF True c c']) simp_all
      also have "\<dots> = ?spec i j left"
      proof (rule map_cong [OF refl])
        fix k assume "k \<in> set [0..<length left]"
        then have k: "k < length left" by simp
        consider "k < i" | "k = i" | "i < k" by fastforce
        then show "(if k < Suc i then left ! k
             else joined_row lfield right (left ! k) j (?mm (Suc i) j ! (k - Suc i)))
          = (if k < i then left ! k
             else joined_row lfield right (left ! k) j (?mm i j ! (k - i)))"
        proof cases
          case 1
          then show ?thesis by simp
        next
          case 2
          then show ?thesis
            by (simp add: mm joined_row_def)
        next
          case 3
          then have "k - i = Suc (k - Suc i)" by simp
          then show ?thesis
            using 3 by (simp add: mm)
        qed
      qed
      finally show ?thesis
        using True c c' by (subst leftJoin_loop.simps) simp
    next
      case gt
      have c: "\<not> loose_eq cmp (get_property (left ! i) pos) (position2 right ! j)"
        and c': "\<not> js_less cmp (get_property (left ! i) pos) (position2 right ! j)"
        using gt pi qj by simp_all
      have "merge_match (ps ! i # drop (Suc i) ps) (qs ! j # drop (Suc j) qs)
              = map (map_option Suc) (merge_match (ps ! i # drop (Suc i) ps) (drop (Suc j) qs))"
        using gt by simp
      then have mm: "?mm i j = map (map_option Suc) (?mm i (Suc j))"
        by (simp only: dps [symmetric] dqs [symmetric])
      have "leftJoin_loop cmp pos lfield right i (Suc j) left = ?spec i (Suc j) left"
        using "1.prems" by (intro "1.IH"(3) [OF True c c']) simp_all
      also have "\<dots> = ?spec i j left"
      proof (rule map_cong [OF refl])
        fix k assume "k \<in> set [0..<length left]"
        then have k: "k < length left" by simp
        show "(if k < i then left ! k
             else joined_row lfield right (left ! k) (Suc j) (?mm i (Suc j) ! (k - i)))
          = (if k < i then left ! k
             else joined_row lfield right (left ! k) j (?mm i j ! (k - i)))"
        proof (cases "k < i")
          case True
          then show ?thesis by simp
        next
          case False
          then have "k - i < length (?mm i (Suc j))"
            using k "1.prems"(1) by simp
          then show ?thesis
            using False by (simp add: mm joined_row_def split: option.splits)
        qed
      qed
      finally show ?thesis
        using True c c' by (subst leftJoin_loop.simps) simp
    qed
  qed
qed


lemma leftJoin_sorted:
  assumes len: "length ps = length left"
    and rows: "\<forall>i<length left. get_property (left ! i) pos = JNum (Num (ps ! i))"
    and sps: "sorted ps"
    and resp: "position2 right = map (\<lambda>q. JNum (Num q)) qs"
    and sqs: "sorted qs"
  shows "length (leftJoin cmp pos left right lfield) = length left"
    and "i < length left \<Longrightarrow> j < length qs \<Longrightarrow> qs ! j = ps ! i \<Longrightarrow>
         count_list (take j qs) (ps ! i) = count_list (take i ps) (ps ! i) \<Longrightarrow>
         leftJoin cmp pos left right lfield ! i
           = set_property (left ! i) lfield (value_at (rsquare right) j)"
    and "i < length left \<Longrightarrow>
         \<forall>j<length qs. qs ! j = ps ! i \<longrightarrow>
            count_list (take j qs) (ps ! i) \<noteq> count_list (take i ps) (ps ! i) \<Longrightarrow>
         leftJoin cmp pos left right lfield ! i = left ! i"
proof -
  have eq: "leftJoin cmp pos left right lfield =
      map (\<lambda>k. joined_row lfield right (left ! k) 0 (merge_match ps qs ! k)) [0..<length left]"
    using leftJoin_loop_merge [OF len _ resp, of 0 pos cmp lfield 0] rows
    by (simp add: leftJoin_def)
  show "length (leftJoin cmp pos left right lfield) = length left"
    by (simp add: eq)
  {
    assume i: "i < length left" and j: "j < length qs" "qs ! j = ps ! i"
      "count_list (take j qs) (ps ! i) = count_list (take i ps) (ps ! i)"
    have "merge_match ps qs ! i = Some j"
      using merge_match_sorted [OF sps sqs, of i j] i j len by simp
    then show "leftJoin cmp pos left right lfield ! i
           = set_property (left ! i) lfield (value_at (rsquare right) j)"
      using i by (simp add: eq joined_row_def)
  }
  {
    assume i: "i < length left"
      and no: "\<forall>j<length qs. qs ! j = ps ! i \<longrightarrow>
            count_list (take j qs) (ps ! i) \<noteq> count_list (take i ps) (ps ! i)"
    have "merge_match ps qs ! i = None"
    proof (cases "merge_match ps qs ! i")
      case None
      then show ?thesis .
    next
      case (Some j)
      then show ?thesis
        using merge_match_sorted [OF sps sqs, of i j] i len no by auto
    qed
    then show "leftJoin cmp pos left right lfield ! i = left ! i"
      using i by (simp add: eq joined_row_def)
  }
qed

text \<open>
  C5. Given a position field to merge on, a chain body whose rows hold numbers ascending
  in that field, and an LD response whose \<open>position2\<close> holds ascending numbers,
  \<open>parseResponse\<close> returns a chain and no error. Its body is the joined rows, after
  \<open>tagRefVariant\<close> when \<open>isrefvar\<close> was requested and a reference variant is
  known. Row \<open>i\<close> of the joined rows is row \<open>i\<close> of the chain with the LD output
  field set to \<open>rsquare[j]\<close>, when \<open>position2[j]\<close> equals the position of the row and
  is the occurrence of that position with the same rank as the row has among the rows at
  that position; it is row \<open>i\<close> of the chain unchanged when the response has no such
  entry. Response entries without a row have no effect.
\<close>

theorem LD_parseResponse_join:
  assumes "or_else (mf_position (findMergeFields params chain)) None = Some pos"
    and "length ps = length (body chain)"
    and "\<forall>i<length (body chain). get_property (body chain ! i) pos = JNum (Num (ps ! i))"
    and "sorted ps"
    and "position2 json_data = map (\<lambda>q. JNum (Num q)) qs"
    and "sorted qs"
    and "lfield = name_of (ldout (findRequestedFields fields' outnames))"
  shows "\<exists>joined.
           length joined = length (body chain)
         \<and> (\<forall>i<length (body chain).
               (\<forall>j<length qs. qs ! j = ps ! i
                   \<and> count_list (take j qs) (ps ! i) = count_list (take i ps) (ps ! i)
                 \<longrightarrow> joined ! i = set_property (body chain ! i) lfield
                                   (value_at (rsquare json_data) j))
             \<and> ((\<forall>j<length qs. qs ! j = ps ! i
                   \<longrightarrow> count_list (take j qs) (ps ! i) \<noteq> count_list (take i ps) (ps ! i))
                 \<longrightarrow> joined ! i = body chain ! i))
         \<and> LD_parseResponse cmp params json_data chain fields' outnames =
             Inr (chain\<lparr>body :=
               if or_else (isrefvarin (findRequestedFields fields' outnames)) None \<noteq> None
                  \<and> truthy (get_property (header chain) ''ldrefvar'')
               then tagRefVariant joined (get_property (header chain) ''ldrefvar'')
                      (name_of (mf_id (findMergeFields params chain)))
                      (name_of (isrefvarout (findRequestedFields fields' outnames)))
               else joined\<rparr>)"
proof -
  let ?joined = "leftJoin cmp pos (body chain) json_data lfield"
  note lj = leftJoin_sorted [OF assms(2-6), where cmp = cmp and lfield = lfield]
  have "LD_parseResponse cmp params json_data chain fields' outnames =
             Inr (chain\<lparr>body :=
               if or_else (isrefvarin (findRequestedFields fields' outnames)) None \<noteq> None
                  \<and> truthy (get_property (header chain) ''ldrefvar'')
               then tagRefVariant ?joined (get_property (header chain) ''ldrefvar'')
                      (name_of (mf_id (findMergeFields params chain)))
                      (name_of (isrefvarout (findRequestedFields fields' outnames)))
               else ?joined\<rparr>)"
    using assms(1,7) by (simp add: LD_parseResponse_def Let_def)
  moreover have "length ?joined = length (body chain)"
    by (rule lj(1))
  moreover have "\<forall>i<length (body chain).
               (\<forall>j<length qs. qs ! j = ps ! i
                   \<and> count_list (take j qs) (ps ! i) = count_list (take i ps) (ps ! i)
                 \<longrightarrow> ?joined ! i = set_property (body chain ! i) lfield
                                   (value_at (rsquare json_data) j))
             \<and> ((\<forall>j<length qs. qs ! j = ps ! i
                   \<longrightarrow> count_list (take j qs) (ps ! i) \<noteq> count_list (take i ps) (ps ! i))
                 \<longrightarrow> ?joined ! i = body chain ! i)"
    using lj(2,3) by blast
  ultimately show ?thesis
    by blast
qed

theorem LD_parseResponse_join_witness:
  "LD_parseResponse \<lparr>other_eq = \<lambda>a b. False, other_less = \<lambda>a b. False\<rparr>
       no_params example_ld example_chain [''state''] [''ld:state'']
     = Inr (example_chain\<lparr>body :=
         [example_row ''a'' 10 @ [(''ld:state'', JNum (Num (1 / 2)))],
          example_row ''b'' 20 @ [(''ld:state'', JNum (Num (7 / 10)))],
          example_row ''c'' 20,
          example_row ''d'' 30]\<rparr>)"
proof -
  let ?cmp = "\<lparr>other_eq = \<lambda>a b. False, other_less = \<lambda>a b. False\<rparr>"
  let ?ps = "[10, 20, 20, 30] :: rat list"
  let ?qs = "[10, 15, 20, 40] :: rat list"
  have h1: "or_else (mf_position (findMergeFields no_params example_chain)) None
              = Some ''assoc:position''"
    by code_simp
  have h2: "length ?ps = length (body example_chain)"
    by (simp add: example_chain_def)
  have h3: "\<forall>i<length (body example_chain).
              get_property (body example_chain ! i) ''assoc:position'' = JNum (Num (?ps ! i))"
    by (simp add: example_chain_def example_row_def get_property_def less_Suc_eq all_conj_distrib)
  have h4: "sorted ?ps" and h6: "sorted ?qs"
    by simp_all
  have h5: "position2 example_ld = map (\<lambda>q. JNum (Num q)) ?qs"
    by (simp add: example_ld_def)
  have h7: "''ld:state'' = name_of (ldout (findRequestedFields [''state''] [''ld:state'']))"
    by (simp add: findRequestedFields_def name_of_def nth_opt_def)
  have h8: "or_else (isrefvarin (findRequestedFields [''state''] [''ld:state''])) None = None"
    by (simp add: findRequestedFields_def or_else_def)
  from LD_parseResponse_join [OF h1 h2 h3 h4 h5 h6 h7, of ?cmp]
  obtain joined where len: "length joined = length (body example_chain)"
    and m: "\<And>i j. i < length (body example_chain) \<Longrightarrow> j < length ?qs \<Longrightarrow> ?qs ! j = ?ps ! i \<Longrightarrow>
              count_list (take j ?qs) (?ps ! i) = count_list (take i ?ps) (?ps ! i) \<Longrightarrow>
              joined ! i = set_property (body example_chain ! i) ''ld:state''
                             (value_at (rsquare example_ld) j)"
    and u: "\<And>i. i < length (body example_chain) \<Longrightarrow>
              (\<forall>j<length ?qs. ?qs ! j = ?ps ! i \<longrightarrow>
                 count_list (take j ?qs) (?ps ! i) \<noteq> count_list (take i ?ps) (?ps ! i)) \<Longrightarrow>
              joined ! i = body example_chain ! i"
    and r: "LD_parseResponse ?cmp no_params example_ld example_chain [''state''] [''ld:state'']
              = Inr (example_chain\<lparr>body := joined\<rparr>)"
    unfolding h8 by auto
  have j0: "joined ! 0 = example_row ''a'' 10 @ [(''ld:state'', JNum (Num (1 / 2)))]"
    using m [of 0 0]
    by (simp add: example_chain_def example_ld_def value_at_def nth_opt_def set_property_def
          example_row_def)
  have j1: "joined ! 1 = example_row ''b'' 20 @ [(''ld:state'', JNum (Num (7 / 10)))]"
    using m [of 1 2]
    by (simp add: example_chain_def example_ld_def value_at_def nth_opt_def set_property_def
          example_row_def)
  have j2: "joined ! 2 = example_row ''c'' 20"
    using u [of 2]
    by (simp add: example_chain_def less_Suc_eq all_conj_distrib)
  have j3: "joined ! 3 = example_row ''d'' 30"
    using u [of 3]
    by (simp add: example_chain_def less_Suc_eq all_conj_distrib)
  have "length joined = 4"
    using len by (simp add: example_chain_def)
  then obtain a b c d where "joined = [a, b, c, d]"
    by (auto simp: eval_nat_numeral length_Suc_conv)
  then show ?thesis
    using r j0 j1 j2 j3 by (simp add: eval_nat_numeral)
qed

section \<open>Properties of the requester\<close>

lemma set_first_appearances [simp]: "set (first_appearances xs) = set xs"
  by (induction xs) auto

lemma distinct_first_appearances [simp]: "distinct (first_appearances xs)"
  by (induction xs) auto

text \<open>Without array indices among its names, an object lists its keys as they were created.\<close>

lemma Object_keys_plain:
  assumes "\<forall>k\<in>set (map fst obj). array_index k = None"
  shows "Object_keys obj = map fst obj"
proof -
  have "List.map_filter (\<lambda>k. map_option (\<lambda>n. (n, k)) (array_index k)) (map fst obj) = []"
    using assms by (simp add: List.map_filter_def filter_empty_conv)
  moreover have "filter (\<lambda>k. array_index k = None) (map fst obj) = map fst obj"
    using assms by (simp add: filter_id_conv)
  ultimately show ?thesis
    by (simp add: Object_keys_def)
qed

lemma split_request_keys:
  assumes "split_request T raw rq = Inr rq'"
  shows "map fst rq' = (if namespace_of raw \<in> set (map fst rq) then map fst rq
                        else map fst rq @ [namespace_of raw])"
proof -
  from assms obtain p1 f p3 where re: "re_exec raw = Some (p1, f, p3)"
    by (auto simp: split_request_def split: option.splits)
  have ns: "namespace_of raw = (case p1 of Some n \<Rightarrow> n | None \<Rightarrow> ''base'')"
    by (simp add: namespace_of_def re split: option.splits)
  show ?thesis
  proof (cases "map_of rq (namespace_of raw)")
    case None
    then have "namespace_of raw \<notin> set (map fst rq)"
      by (simp add: map_of_eq_None_iff)
    then show ?thesis
      using assms None re ns
      by (auto simp: split_request_def Let_def split: sum.splits if_splits)
  next
    case (Some g)
    then have "namespace_of raw \<in> set (map fst rq)"
      by (metis map_of_eq_None_iff option.distinct(1) set_map)
    then have "map fst (AList.update (namespace_of raw) v rq) = map fst rq" for v
      by (simp add: update_keys)
    then show ?thesis
      using assms Some re ns \<open>namespace_of raw \<in> set (map fst rq)\<close>
      by (auto simp: split_request_def Let_def set_property_def split: sum.splits)
  qed
qed

lemma split_requests_from_keys:
  assumes "split_requests_from T fs rq = Inr rq'"
  shows "map fst rq' = map fst rq
           @ filter (\<lambda>n. n \<notin> set (map fst rq)) (first_appearances (map namespace_of fs))"
  using assms
proof (induction fs arbitrary: rq)
  case Nil
  then show ?case by simp
next
  case (Cons raw fs)
  from Cons.prems obtain rq1 where s1: "split_request T raw rq = Inr rq1"
    and s2: "split_requests_from T fs rq1 = Inr rq'"
    by (auto split: sum.splits)
  note k1 = split_request_keys [OF s1]
  note IH = Cons.IH [OF s2]
  have f: "filter (\<lambda>n. n \<notin> set (map fst rq) \<and> n \<noteq> namespace_of raw) xs
      = filter (\<lambda>n. n \<notin> set (map fst rq)) (filter (\<lambda>y. y \<noteq> namespace_of raw) xs)" for xs
    by (induction xs) auto
  show ?case
  proof (cases "namespace_of raw \<in> set (map fst rq)")
    case True
    then have "map fst rq1 = map fst rq" using k1 by simp
    then have "map fst rq' = map fst rq
           @ filter (\<lambda>n. n \<notin> set (map fst rq)) (first_appearances (map namespace_of fs))"
      using IH by simp
    moreover have "filter (\<lambda>n. n \<notin> set (map fst rq)) (first_appearances (map namespace_of fs))
        = filter (\<lambda>n. n \<notin> set (map fst rq))
            (filter (\<lambda>y. y \<noteq> namespace_of raw) (first_appearances (map namespace_of fs)))"
      using True by (auto intro: filter_cong)
    ultimately show ?thesis
      using True by simp
  next
    case False
    then have "map fst rq1 = map fst rq @ [namespace_of raw]" using k1 by simp
    then have "map fst rq' = map fst rq @ [namespace_of raw]
           @ filter (\<lambda>n. n \<notin> set (map fst rq) \<and> n \<noteq> namespace_of raw)
               (first_appearances (map namespace_of fs))"
      using IH by (simp add: conj_commute)
    also have "filter (\<lambda>n. n \<notin> set (map fst rq) \<and> n \<noteq> namespace_of raw)
               (first_appearances (map namespace_of fs))
        = filter (\<lambda>n. n \<notin> set (map fst rq))
            (filter (\<lambda>y. y \<noteq> namespace_of raw) (first_appearances (map namespace_of fs)))"
      by (rule f)
    finally show ?thesis
      using False by simp
  qed
qed

text \<open>
  The groups are created in the order in which the namespaces first appear among the
  requested fields.
\<close>

lemma split_requests_keys:
  assumes "split_requests T fs = Inr requests"
  shows "map fst requests = first_appearances (map namespace_of fs)"
  using split_requests_from_keys [of T fs "[]" requests] assms
  by (simp add: split_requests_def)

text \<open>
  When no namespace is an array index, the sources are called in the order in which the
  namespaces first appear, one call for each namespace, and the functions they return are
  chained in that order from the empty chain.
\<close>

lemma Requester_getData_plain_namespaces:
  assumes "split_requests T fs = Inr requests"
    and "\<forall>raw\<in>set fs. array_index (namespace_of raw) = None"
  shows "Requester_getData sources T st fs w =
           (case sequence (map (request_promise sources st requests)
                               (first_appearances (map namespace_of fs))) of
              Inl e \<Rightarrow> (Inl e, w)
            | Inr promises \<Rightarrow> then_all promises \<lparr>header = [], body = []\<rparr> w)"
proof -
  have k: "map fst requests = first_appearances (map namespace_of fs)"
    by (rule split_requests_keys [OF assms(1)])
  have "\<forall>k\<in>set (map fst requests). array_index k = None"
    using assms(2) unfolding k by auto
  then have "Object_keys requests = first_appearances (map namespace_of fs)"
    using Object_keys_plain k by metis
  then show ?thesis
    by (simp add: Requester_getData_def assms(1))
qed

lemma example_fields:
  "re_exec ''assoc:pvalue'' = Some (Some ''assoc'', ''pvalue'', None)"
  "re_exec ''1:isrefvar'' = Some (Some ''1'', ''isrefvar'', None)"
  "re_exec ''ld:isrefvar'' = Some (Some ''ld'', ''isrefvar'', None)"
  by code_simp+

lemma example_indices:
  "array_index ''1'' = Some 1" "array_index ''assoc'' = None" "array_index ''ld'' = None"
  by (simp_all add: array_index_def is_digit_def decimal_value_def digit_value_def)

lemma example_split:
  "split_requests Map.empty [''assoc:pvalue'', ''1:isrefvar''] =
     Inr [(''assoc'', \<lparr>group_outnames = [''assoc:pvalue''], group_fields = [''pvalue''],
                       group_trans = [None]\<rparr>),
          (''1'', \<lparr>group_outnames = [''1:isrefvar''], group_fields = [''isrefvar''],
                   group_trans = [None]\<rparr>)]"
  by (simp add: split_requests_def split_request_def example_fields TransformationFunctions_get_def
        getTrans_def Object_prototype_names_def)

text \<open>
  C2. Claim: the sources are called in the order in which their namespaces first appear
  among the requested fields, each on the chain of the one before. For the fields
  \<open>assoc:pvalue\<close> and \<open>1:isrefvar\<close>, requested in that order, the source of the
  namespace \<open>1\<close> is called first, on the empty chain, and the source of \<open>assoc\<close>
  second, on the chain that the first returned: \<open>Object.keys\<close> lists a name that is
  an array index before every other name.
\<close>

theorem Requester_getData_index_namespace:
  "Requester_getData [''assoc'' \<mapsto> logging_source ''assoc'', ''1'' \<mapsto> logging_source ''1'']
       Map.empty () [''assoc:pvalue'', ''1:isrefvar''] []
     = (Inr \<lparr>header = [], body = [[(''from'', JStr ''1'')], [(''from'', JStr ''assoc'')]]\<rparr>,
        [(''1'', \<lparr>header = [], body = []\<rparr>),
         (''assoc'', \<lparr>header = [], body = [[(''from'', JStr ''1'')]]\<rparr>)])"
  by (simp add: Requester_getData_def example_split Object_keys_def example_indices
        List.map_filter_def request_promise_def logging_source_def)

text \<open>With the namespaces \<open>assoc\<close> and \<open>ld\<close> the order of the request is kept.\<close>

lemma example_split_ld:
  "split_requests Map.empty [''assoc:pvalue'', ''ld:isrefvar''] =
     Inr [(''assoc'', \<lparr>group_outnames = [''assoc:pvalue''], group_fields = [''pvalue''],
                       group_trans = [None]\<rparr>),
          (''ld'', \<lparr>group_outnames = [''ld:isrefvar''], group_fields = [''isrefvar''],
                    group_trans = [None]\<rparr>)]"
  by (simp add: split_requests_def split_request_def example_fields TransformationFunctions_get_def
        getTrans_def Object_prototype_names_def)

lemma Requester_getData_assoc_ld:
  "Requester_getData [''assoc'' \<mapsto> logging_source ''assoc'', ''ld'' \<mapsto> logging_source ''ld'']
       Map.empty () [''assoc:pvalue'', ''ld:isrefvar''] []
     = (Inr \<lparr>header = [], body = [[(''from'', JStr ''assoc'')], [(''from'', JStr ''ld'')]]\<rparr>,
        [(''assoc'', \<lparr>header = [], body = []\<rparr>),
         (''ld'', \<lparr>header = [], body = [[(''from'', JStr ''assoc'')]]\<rparr>)])"
  by (simp add: Requester_getData_def example_split_ld Object_keys_def example_indices
        List.map_filter_def request_promise_def logging_source_def)

section \<open>Properties of the layout solver\<close>

lemma update_distinct_map:
  assumes "distinct (map fst al)" and "map_of al k = Some v0"
  shows "AList.update k v al = map (\<lambda>(k', v'). (k', if k' = k then v else v')) al"
  using assms
proof (induction al)
  case Nil
  then show ?case by simp
next
  case (Cons a al)
  obtain k' v' where a: "a = (k', v')" by (cases a)
  show ?case
  proof (cases "k' = k")
    case True
    then have "k \<notin> fst ` set al"
      using Cons.prems(1) a by auto
    then have "map (\<lambda>(k', v'). (k', if k' = k then v else v')) al = al"
      by (induction al) auto
    then show ?thesis
      using True a by simp
  next
    case False
    then show ?thesis
      using Cons a by simp
  qed
qed

lemma map_of_map_snd:
  "map_of (map (\<lambda>(k, p). (k, g k p)) al) k = map_option (g k) (map_of al k)"
  by (induction al) auto

text \<open>
  With exact arithmetic, the loop of \<open>sumProportional\<close> gives an equal share to
  every panel it visits that has none, and adds the shares up.
\<close>

lemma sumProportional_loop_exact:
  assumes "distinct (map fst ps0)" and "distinct ks" and "set ks \<inter> S = {}"
    and "set ks \<subseteq> set (map fst ps0)"
  shows "sumProportional_loop (\<lambda>x. x) N ks
           (map (\<lambda>(k, p). (k, if k \<in> S then equal_share (\<lambda>x. x) N p else p)) ps0, t)
         = (map (\<lambda>(k, p). (k, if k \<in> S \<union> set ks then equal_share (\<lambda>x. x) N p else p)) ps0,
            t + (\<Sum>k\<leftarrow>ks. share_of (equal_share (\<lambda>x. x) N (the (map_of ps0 k)))))"
  using assms(2-4)
proof (induction ks arbitrary: S t)
  case Nil
  then show ?case by simp
next
  case (Cons k ks)
  let ?f = "equal_share (\<lambda>x. x) N"
  let ?cur = "\<lambda>S. map (\<lambda>(k, p). (k, if k \<in> S then ?f p else p)) ps0"
  from Cons.prems obtain p0 where p0: "map_of ps0 k = Some p0"
    by (metis list.set_intros(1) map_of_eq_None_iff not_Some_eq set_map subsetD)
  have kS: "k \<notin> S" using Cons.prems by auto
  have cur: "map_of (?cur S) k = Some p0"
    using p0 kS by (simp add: map_of_map_snd)
  have dcur: "distinct (map fst (?cur S))"
    using assms(1) by (simp add: comp_def case_prod_unfold)
  have "set_property (?cur S) k (?f p0) = map (\<lambda>(k', v'). (k', if k' = k then ?f p0 else v')) (?cur S)"
    unfolding set_property_def by (rule update_distinct_map [OF dcur cur])
  also have "\<dots> = ?cur (insert k S)"
  proof (rule nth_equalityI)
    show "length (map (\<lambda>(k', v'). (k', if k' = k then ?f p0 else v')) (?cur S)) = length (?cur (insert k S))"
      by simp
  next
    fix i assume "i < length (map (\<lambda>(k', v'). (k', if k' = k then ?f p0 else v')) (?cur S))"
    then have i: "i < length ps0" by simp
    obtain k' p' where kp: "ps0 ! i = (k', p')" by (cases "ps0 ! i")
    have "k' = k \<Longrightarrow> p' = p0"
      using kp i p0 assms(1) by (metis map_of_is_SomeI nth_mem option.inject)
    then show "map (\<lambda>(k', v'). (k', if k' = k then ?f p0 else v')) (?cur S) ! i = ?cur (insert k S) ! i"
      using i kp kS by auto
  qed
  finally have upd: "set_property (?cur S) k (?f p0) = ?cur (insert k S)" .
  have "sumProportional_loop (\<lambda>x. x) N (k # ks) (?cur S, t)
      = sumProportional_loop (\<lambda>x. x) N ks (?cur (insert k S), t + share_of (?f p0))"
    using cur upd by simp
  also have "\<dots> = (?cur (insert k S \<union> set ks),
      t + share_of (?f p0) + (\<Sum>k\<leftarrow>ks. share_of (?f (the (map_of ps0 k)))))"
    using Cons.prems by (intro Cons.IH) auto
  finally show ?case
    using p0 by (simp add: add.assoc)
qed


lemma index_keys:
  "map snd (List.map_filter (\<lambda>k. map_option (\<lambda>n. (n, k)) (array_index k)) ks)
     = filter (\<lambda>k. array_index k \<noteq> None) ks"
  by (induction ks) (auto simp: List.map_filter_def)

lemma set_Object_keys: "set (Object_keys obj) = set (map fst obj)"
proof -
  let ?idx = "List.map_filter (\<lambda>k. map_option (\<lambda>n. (n, k)) (array_index k)) (map fst obj)"
  have "set (map snd (sort_key fst ?idx)) = set (map snd ?idx)"
    by simp
  also have "\<dots> = {k \<in> set (map fst obj). array_index k \<noteq> None}"
    unfolding index_keys by simp
  finally show ?thesis
    by (auto simp: Object_keys_def Let_def)
qed

lemma distinct_Object_keys:
  assumes "distinct (map fst obj)"
  shows "distinct (Object_keys obj)"
proof -
  let ?ks = "map fst obj"
  let ?idx = "List.map_filter (\<lambda>k. map_option (\<lambda>n. (n, k)) (array_index k)) ?ks"
  have d: "distinct (map snd ?idx)"
    unfolding index_keys using assms by simp
  then have "distinct ?idx" and "inj_on snd (set ?idx)"
    by (simp_all add: distinct_map)
  then have "distinct (map snd (sort_key fst ?idx))"
    by (simp add: distinct_map)
  moreover have "distinct (filter (\<lambda>k. array_index k = None) ?ks)"
    using assms by simp
  moreover have "set (map snd (sort_key fst ?idx)) = {k \<in> set ?ks. array_index k \<noteq> None}"
  proof -
    have "set (map snd (sort_key fst ?idx)) = set (map snd ?idx)"
      by simp
    then show ?thesis
      unfolding index_keys by simp
  qed
  ultimately show ?thesis
    by (auto simp: Object_keys_def Let_def)
qed

lemma sum_over_keys:
  fixes h :: "'v \<Rightarrow> rat"
  assumes "distinct (map fst al)" and "distinct ks" and "set ks = set (map fst al)"
  shows "(\<Sum>k\<leftarrow>ks. h (the (map_of al k))) = (\<Sum>(k, p)\<leftarrow>al. h p)"
proof -
  have "(\<Sum>k\<leftarrow>ks. h (the (map_of al k))) = sum (\<lambda>k. h (the (map_of al k))) (set ks)"
    using assms(2) by (rule sum_list_distinct_conv_sum_set)
  also have "\<dots> = sum (\<lambda>k. h (the (map_of al k))) (set (map fst al))"
    using assms(3) by simp
  also have "\<dots> = (\<Sum>k\<leftarrow>map fst al. h (the (map_of al k)))"
    using assms(1) by (rule sum_list_distinct_conv_sum_set [symmetric])
  also have "\<dots> = (\<Sum>(k, p)\<leftarrow>al. h p)"
  proof -
    have "h (the (map_of al (fst x))) = (case x of (k, p) \<Rightarrow> h p)" if "x \<in> set al" for x
    proof -
      obtain k p where x: "x = (k, p)" by (cases x)
      then have "map_of al k = Some p"
        using that assms(1) by simp
      then show ?thesis
        using x by simp
    qed
    then have "map ((\<lambda>k. h (the (map_of al k))) \<circ> fst) al = map (\<lambda>(k, p). h p) al"
      by (intro map_cong) auto
    then show ?thesis by (simp only: map_map)
  qed
  finally show ?thesis .
qed


lemma sumProportional_exact:
  assumes "distinct (map fst ps)"
  shows "sumProportional (\<lambda>x. x) ps
           = (map (\<lambda>(k, p). (k, equal_share (\<lambda>x. x) (length ps) p)) ps,
              (\<Sum>(k, p)\<leftarrow>ps. share_of (equal_share (\<lambda>x. x) (length ps) p)))"
proof -
  let ?f = "equal_share (\<lambda>x. x) (length ps)"
  have ks: "distinct (Object_keys ps)" "set (Object_keys ps) = set (map fst ps)"
    using assms by (simp_all add: distinct_Object_keys set_Object_keys)
  have "sumProportional_loop (\<lambda>x. x) (length ps) (Object_keys ps)
           (map (\<lambda>(k, p). (k, if k \<in> {} then ?f p else p)) ps, 0)
         = (map (\<lambda>(k, p). (k, if k \<in> {} \<union> set (Object_keys ps) then ?f p else p)) ps,
            0 + (\<Sum>k\<leftarrow>Object_keys ps. share_of (?f (the (map_of ps k)))))"
    using assms ks by (intro sumProportional_loop_exact) auto
  moreover have "map (\<lambda>(k, p). (k, if k \<in> {} then ?f p else p)) ps = ps"
    by (induction ps) auto
  moreover have "map (\<lambda>(k, p). (k, if k \<in> {} \<union> set (Object_keys ps) then ?f p else p)) ps
      = map (\<lambda>(k, p). (k, ?f p)) ps"
    using ks(2) by (intro map_cong) force+
  moreover have "(\<Sum>k\<leftarrow>Object_keys ps. share_of (?f (the (map_of ps k))))
      = (\<Sum>(k, p)\<leftarrow>ps. share_of (?f p))"
    using assms ks by (intro sum_over_keys) auto
  ultimately show ?thesis
    by (simp add: sumProportional_def)
qed

lemma share_of_equal_share_assign:
  "share_of (equal_share (\<lambda>x. x) N (assign_missing (\<lambda>x. x) H p)) = initial_share N H p"
  by (simp add: share_of_def equal_share_def assign_missing_def initial_share_def no_share_def
        Let_def split: option.splits)

text \<open>
  What the normalisation is meant to do. On a plot of non-zero height whose panels' shares
  (a panel's proportional height; its pixel height over the plot height when it has none;
  \<open>1 / N\<close> when that is 0) have a non-zero total, \<open>positionPanels\<close> with
  every operation carried out without rounding leaves every panel with its share divided
  by the total, and these proportional heights sum to exactly 1.
\<close>

lemma positionPanels_exact:
  assumes "distinct (map fst (panels this))" and "layout_height this \<noteq> 0"
    and "N = length (panels this)" and "H = layout_height this"
    and "T = (\<Sum>(k, p)\<leftarrow>panels this. initial_share N H p)" and "T \<noteq> 0"
  shows "positionPanels (\<lambda>x. x) this =
           Some (this\<lparr>panels :=
             map (\<lambda>(k, p). (k, p\<lparr>proportional_height := Some (initial_share N H p / T),
                                   proportional_width :=
                                     Some (case proportional_width p of None \<Rightarrow> 1
                                           | Some w \<Rightarrow> w)\<rparr>))
                 (panels this)\<rparr>)
       \<and> (\<Sum>(k, p)\<leftarrow>map (\<lambda>(k, p). (k, p\<lparr>proportional_height := Some (initial_share N H p / T),
                                   proportional_width :=
                                     Some (case proportional_width p of None \<Rightarrow> 1
                                           | Some w \<Rightarrow> w)\<rparr>))
                 (panels this). share_of p) = 1"
proof -
  let ?a = "assign_missing (\<lambda>x. x) H"
  let ?f = "equal_share (\<lambda>x. x) N"
  let ?ps1 = "map (\<lambda>(k, p). (k, ?a p)) (panels this)"
  let ?ps2 = "map (\<lambda>(k, p). (k, ?f (?a p))) (panels this)"
  let ?ps3 = "map (\<lambda>(k, p). (k, p\<lparr>proportional_height := Some (initial_share N H p / T),
                                      proportional_width :=
                                        Some (case proportional_width p of None \<Rightarrow> 1
                                              | Some w \<Rightarrow> w)\<rparr>))
                    (panels this)"
  have d1: "distinct (map fst ?ps1)"
    using assms(1) by (simp add: comp_def case_prod_unfold)
  have l1: "length ?ps1 = N"
    using assms(3) by simp
  have s: "sumProportional (\<lambda>x. x) ?ps1 = (?ps2, T)"
    unfolding sumProportional_exact [OF d1] l1 assms(5)
    by (simp add: comp_def case_prod_unfold share_of_equal_share_assign)
  have n: "(?f (?a p))\<lparr>proportional_height :=
              map_option (\<lambda>x. x * (1 / T)) (proportional_height (?f (?a p)))\<rparr>
        = p\<lparr>proportional_height := Some (initial_share N H p / T),
             proportional_width := Some (case proportional_width p of None \<Rightarrow> 1 | Some w \<Rightarrow> w)\<rparr>" for p
    by (simp add: equal_share_def assign_missing_def initial_share_def no_share_def Let_def
          split: option.splits)
  have r: "positionPanels (\<lambda>x. x) this = Some (this\<lparr>panels := ?ps3\<rparr>)"
    using assms(2,6) s n by (simp add: positionPanels_def assms(4) comp_def case_prod_unfold)
  have "(\<Sum>(k, p)\<leftarrow>?ps3. share_of p) = (\<Sum>(k, p)\<leftarrow>panels this. initial_share N H p * (1 / T))"
    by (simp add: comp_def case_prod_unfold share_of_def)
  also have "\<dots> = (\<Sum>(k, p)\<leftarrow>panels this. initial_share N H p) * (1 / T)"
    unfolding case_prod_unfold by (rule sum_list_mult_const)
  also have "\<dots> = 1"
    using assms(5,6) by simp
  finally show ?thesis
    using r by simp
qed


lemma positionPanels_exact_example:
  "positionPanels (\<lambda>x. x) example_plot_null =
     Some \<lparr>layout_height = 600,
           panels = [(''a'', \<lparr>height = 100, proportional_height = Some (1 / 8),
                             proportional_width = Some 1\<rparr>),
                     (''b'', \<lparr>height = 500, proportional_height = Some (5 / 8),
                             proportional_width = Some 1\<rparr>),
                     (''c'', \<lparr>height = 0, proportional_height = Some (1 / 4),
                             proportional_width = Some 1\<rparr>)]\<rparr>
   \<and> (1 / 8 + 5 / 8 + 1 / 4 :: rat) = 1"
proof -
  have h1: "distinct (map fst (panels example_plot_null))"
    and h2: "layout_height example_plot_null \<noteq> 0"
    and h3: "3 = length (panels example_plot_null)"
    and h4: "600 = layout_height example_plot_null"
    by (simp_all add: example_plot_null_def)
  have h5: "4 / 3 = (\<Sum>(k, p)\<leftarrow>panels example_plot_null. initial_share 3 600 p)"
    by (simp add: example_plot_null_def initial_share_def)
  have h6: "(4 / 3 :: rat) \<noteq> 0"
    by simp
  have "positionPanels (\<lambda>x. x) example_plot_null =
          Some (example_plot_null\<lparr>panels :=
             map (\<lambda>(k, p). (k, p\<lparr>proportional_height := Some (initial_share 3 600 p / (4 / 3)),
                                   proportional_width :=
                                     Some (case proportional_width p of None \<Rightarrow> 1
                                           | Some w \<Rightarrow> w)\<rparr>))
                 (panels example_plot_null)\<rparr>)"
    using positionPanels_exact [OF h1 h2 h3 h4 h5 h6] by (rule conjunct1)
  then show ?thesis
    by (simp add: example_plot_null_def initial_share_def)
qed

lemma example_doubles:
  "double 1 = 1" "double 5 = 5" "double 6 = 6"
  "double (1 / 6) = 6004799503160661 / 36028797018963968"
  "double (6004799503160661 / 36028797018963968) = 6004799503160661 / 36028797018963968"
  "double (30023997515803305 / 36028797018963968) = 3752999689475413 / 4503599627370496"
  "double (36028797018963965 / 36028797018963968) = 9007199254740991 / 9007199254740992"
  by code_simp+

lemma example_plot_keys: "Object_keys (panels example_plot) = [''a'', ''b'']"
  by (simp add: example_plot_def Object_keys_def array_index_def is_digit_def List.map_filter_def)

text \<open>
  C9. Claim: after every pass the proportional heights of the panels sum to exactly 1; the
  comment in \<open>positionPanels\<close> says the same of its normalisation. The program
  computes in double precision. For two panels with the proportional heights 1 and 5 the
  total is 6, its reciprocal is rounded, and so is five times that: the two proportional
  heights that the code stores add up to \<open>1 - 2^-53\<close>, also when they are added
  in double precision.
\<close>

theorem positionPanels_double_1_5:
  "positionPanels double example_plot =
     Some (example_plot\<lparr>panels :=
       [(''a'', \<lparr>height = 100,
                 proportional_height = Some (6004799503160661 / 36028797018963968),
                 proportional_width = Some 1\<rparr>),
        (''b'', \<lparr>height = 500,
                 proportional_height = Some (3752999689475413 / 4503599627370496),
                 proportional_width = Some 1\<rparr>)]\<rparr>)
   \<and> (6004799503160661 / 36028797018963968 + 3752999689475413 / 4503599627370496 :: rat)
       = 36028797018963965 / 36028797018963968
   \<and> double (6004799503160661 / 36028797018963968 + 3752999689475413 / 4503599627370496)
       = 9007199254740991 / 9007199254740992"
proof -
  have k: "Object_keys [(''a'', p), (''b'', q)] = [''a'', ''b'']" for p q :: panel_layout
    by (simp add: Object_keys_def array_index_def is_digit_def List.map_filter_def)
  show ?thesis
    by (simp add: positionPanels_def example_plot_def assign_missing_def sumProportional_def k
          equal_share_def no_share_def share_of_def set_property_def example_doubles)
qed

end
